theory Spec2Isabelle
  imports Main "HOL-Library.Word" "HOL-Library.List_Lexorder" "HOL-Library.Char_ord"
begin

section \<open>CIDAllocator (pkg/sim/cid.go)\<close>

text \<open>
  The allocator hands out three-character codes.  The Go struct keeps a slice of seven
  maps used as sets (\<open>groups\<close>), a map from every code to the index of its partition
  (\<open>cidGroup\<close>), the index of the partition currently drawn from (\<open>groupIndex\<close>) and the
  set of codes handed out (\<open>allocated\<close>).  A Go map used as a set is a HOL set; a
  \<open>nil\<close> map and an empty map both have length 0 and are the empty set.
\<close>

definition preferredAlphas :: "char list" where
  "preferredAlphas = ''PKNYTVFRCDEWA''"

definition nonPreferredAlphas :: "char list" where
  "nonPreferredAlphas = ''MXLJUBGQSHZ''"

definition digits :: "char list" where
  "digits = ''0123456789''"

record CIDAllocator =
  groups :: "string set list"
  cidGroup :: "string \<rightharpoonup> nat"
  groupIndex :: nat
  allocated :: "string set"

datatype cid_error =
    NoMoreCIDs          \<comment> \<open>\<open>fmt.Errorf("no more CIDs available")\<close>\<close>
  | IndexOutOfRange     \<comment> \<open>the runtime panic of \<open>c.groups[idx]\<close> with \<open>idx\<close> out of range\<close>

text \<open>
  The closure \<open>add\<close> of \<open>generateCIDGroups\<close>: it inserts the code into partition \<open>idx\<close>
  and records the partition in the code map (a later \<open>add\<close> of the same code overwrites
  the entry).  The tables are the pair (groups, cidMap).
\<close>

type_synonym cid_tables = "string set list \<times> (string \<rightharpoonup> nat)"

definition add :: "nat \<Rightarrow> char \<Rightarrow> char \<Rightarrow> char \<Rightarrow> cid_tables \<Rightarrow> cid_tables" where
  "add idx r1 r2 r3 = (\<lambda>(gs, cidMap).
     let s = [r1, r2, r3]
     in (gs[idx := insert s (gs ! idx)], cidMap(s \<mapsto> idx)))"

text \<open>The seven loop nests of \<open>generateCIDGroups\<close>, in source order; a \<open>for range\<close> over a
  slice is a \<open>fold\<close> over the list.\<close>

definition fill0 :: "cid_tables \<Rightarrow> cid_tables" where
  "fill0 = fold (\<lambda>a. fold (\<lambda>b. fold (\<lambda>c. add 0 a b c) digits) digits) digits"

definition fill1 :: "cid_tables \<Rightarrow> cid_tables" where
  "fill1 = fold (\<lambda>a. fold (\<lambda>b. fold (\<lambda>l. add 1 a b l) preferredAlphas) digits) digits"

definition fill2 :: "cid_tables \<Rightarrow> cid_tables" where
  "fill2 = fold (\<lambda>a. fold (\<lambda>l1. fold (\<lambda>l2. add 2 a l1 l2) preferredAlphas) preferredAlphas) digits"

definition fill3 :: "cid_tables \<Rightarrow> cid_tables" where
  "fill3 = fold (\<lambda>a. fold (\<lambda>l. fold (\<lambda>b. add 3 a l b) digits) preferredAlphas) digits"

definition fill4 :: "cid_tables \<Rightarrow> cid_tables" where
  "fill4 = fold (\<lambda>a. fold (\<lambda>b. fold (\<lambda>l. add 4 a b l) nonPreferredAlphas) digits) digits"

definition fill5 :: "cid_tables \<Rightarrow> cid_tables" where
  "fill5 = fold (\<lambda>d t.
       fold (\<lambda>a1. fold (\<lambda>a2. add 5 d a1 a2) nonPreferredAlphas) preferredAlphas
        (fold (\<lambda>a1 t'. fold (\<lambda>a2. add 5 d a1 a2) preferredAlphas
                         (fold (\<lambda>a2. add 5 d a1 a2) nonPreferredAlphas t'))
           nonPreferredAlphas t))
     digits"

definition fill6 :: "cid_tables \<Rightarrow> cid_tables" where
  "fill6 = fold (\<lambda>a. fold (\<lambda>l. fold (\<lambda>b. add 6 a l b) digits) nonPreferredAlphas) digits"

definition generateCIDGroups :: cid_tables where
  "generateCIDGroups =
     fill6 (fill5 (fill4 (fill3 (fill2 (fill1 (fill0 (replicate 7 {}, Map.empty)))))))"

definition NewCIDAllocator :: CIDAllocator where
  "NewCIDAllocator = (case generateCIDGroups of (gs, cm) \<Rightarrow>
     \<lparr>groups = gs, cidGroup = cm, groupIndex = 0, allocated = {}\<rparr>)"

text \<open>
  \<open>Allocate\<close>.  The two sources of nondeterminism of the Go code are parameters: \<open>r\<close> is
  the number the random source produces, reduced by \<open>rand.Intn(len(g))\<close> to
  \<open>r mod len(g)\<close>; \<open>ord g\<close> is the sequence in which \<open>for k := range g\<close> yields the keys
  of \<open>g\<close> (Go leaves the order open).  The inner loop stops at the \<open>n\<close>-th key; when it
  runs out of keys first, \<open>cid\<close> keeps its zero value, the empty string.
  The outer loop skips empty partitions, moving \<open>groupIndex\<close> forward for good.
\<close>

function Allocate ::
  "nat \<Rightarrow> (string set \<Rightarrow> string list) \<Rightarrow> CIDAllocator \<Rightarrow> (cid_error + string) \<times> CIDAllocator"
where
  "Allocate r ord c =
     (if groupIndex c < length (groups c) then
        let g = groups c ! groupIndex c in
        if card g = 0 then Allocate r ord (c\<lparr>groupIndex := groupIndex c + 1\<rparr>)
        else
          let n = r mod card g;
              cid = (if n < length (ord g) then ord g ! n else [])
          in (Inr cid,
              c\<lparr>groups := (groups c)[groupIndex c := g - {cid}],
                allocated := insert cid (allocated c)\<rparr>)
      else (Inl NoMoreCIDs, c))"
  by pat_completeness auto
termination
  by (relation "measure (\<lambda>(r, ord, c). length (groups c) - groupIndex c)") auto

declare Allocate.simps [simp del]

text \<open>
  \<open>Release\<close>.  Go returns nothing; the model returns the allocator after the call, or
  the index panic of \<open>c.groups[idx]\<close>.
\<close>

definition Release :: "string \<Rightarrow> CIDAllocator \<Rightarrow> cid_error + CIDAllocator" where
  "Release cid c =
     (if cid \<notin> allocated c then Inr c
      else
        let c1 = c\<lparr>allocated := allocated c - {cid}\<rparr> in
        case cidGroup c1 cid of
          None \<Rightarrow> Inr c1
        | Some idx \<Rightarrow>
            if idx \<ge> length (groups c1) then Inl IndexOutOfRange
            else
              let c2 = c1\<lparr>groups := (groups c1)[idx := insert cid (groups c1 ! idx)]\<rparr>
              in Inr (if idx < groupIndex c2 then c2\<lparr>groupIndex := idx\<rparr> else c2))"

subsection \<open>Predicates used to state the allocator's properties\<close>

text \<open>
  The shape of a code decides its partition: the class of a character is 0 for a digit,
  1 for a preferred letter, 2 for a non-preferred letter; \<open>partitionOf\<close> reads the
  partition off the three classes, following the seven loop nests.
\<close>

definition cls :: "char \<Rightarrow> nat" where
  "cls ch = (if ch \<in> set digits then 0 else if ch \<in> set preferredAlphas then 1
             else if ch \<in> set nonPreferredAlphas then 2 else 3)"

definition partitionOf :: "string \<Rightarrow> nat option" where
  "partitionOf s = (case s of
      [a, b, c] \<Rightarrow>
        (if cls a \<noteq> 0 then None
         else if cls b = 0 \<and> cls c = 0 then Some 0
         else if cls b = 0 \<and> cls c = 1 then Some 1
         else if cls b = 1 \<and> cls c = 1 then Some 2
         else if cls b = 1 \<and> cls c = 0 then Some 3
         else if cls b = 0 \<and> cls c = 2 then Some 4
         else if cls b = 2 \<and> cls c = 0 then Some 6
         else if cls b = 3 \<or> cls c = 3 then None
         else Some 5)
    | _ \<Rightarrow> None)"

text \<open>
  Consistency of the generated tables: seven finite partitions, the code map sends every
  member of partition \<open>i\<close> to \<open>i\<close>, and every entry of the code map is a member of the
  partition it names.
\<close>

definition tables_ok :: "cid_tables \<Rightarrow> bool" where
  "tables_ok t = (case t of (gs, cm) \<Rightarrow>
     length gs = 7 \<and>
     (\<forall>i<7. finite (gs ! i) \<and> (\<forall>s\<in>gs ! i. cm s = Some i)) \<and>
     (\<forall>s i. cm s = Some i \<longrightarrow> i < 7 \<and> s \<in> gs ! i \<and> partitionOf s = Some i))"

text \<open>
  What Go guarantees of \<open>for k := range g\<close> when the loop body does not touch \<open>g\<close>:
  every key is produced exactly once.
\<close>

definition go_range :: "(string set \<Rightarrow> string list) \<Rightarrow> bool" where
  "go_range ord = (\<forall>g. finite g \<longrightarrow> set (ord g) = g \<and> distinct (ord g))"

text \<open>The key the inner loop of \<open>Allocate\<close> stops at.\<close>

definition pick :: "nat \<Rightarrow> (string set \<Rightarrow> string list) \<Rightarrow> string set \<Rightarrow> string" where
  "pick r ord g = (let n = r mod card g in if n < length (ord g) then ord g ! n else [])"

text \<open>
  The invariant of the allocator: the code map is the generated one, free codes sit in
  the partition the code map names and are not allocated, allocated codes are known to
  the code map, and every partition before \<open>groupIndex\<close> is empty.
\<close>

definition cid_inv :: "CIDAllocator \<Rightarrow> bool" where
  "cid_inv c =
     (length (groups c) = 7 \<and>
      cidGroup c = snd generateCIDGroups \<and>
      (\<forall>i<7. finite (groups c ! i) \<and>
              (\<forall>s\<in>groups c ! i. cidGroup c s = Some i \<and> s \<notin> allocated c)) \<and>
      (\<forall>s\<in>allocated c. \<exists>i<7. cidGroup c s = Some i) \<and>
      (\<forall>i<7. i < groupIndex c \<longrightarrow> groups c ! i = {}))"

text \<open>
  The allocators that a sequence of \<open>Allocate\<close> and \<open>Release\<close> calls produces from
  \<open>NewCIDAllocator\<close>; every \<open>Allocate\<close> has its own random number and key order.
\<close>

inductive reach :: "CIDAllocator \<Rightarrow> bool" where
  init: "reach NewCIDAllocator"
| alloc: "reach c \<Longrightarrow> go_range ord \<Longrightarrow> reach (snd (Allocate r ord c))"
| release: "reach c \<Longrightarrow> Release cid c = Inr c' \<Longrightarrow> reach c'"

text \<open>The allocator after \<open>Allocate\<close> has drawn \<open>cid\<close> from partition \<open>i\<close>, and after
  \<open>Release\<close> has put \<open>cid\<close> back into partition \<open>idx\<close>.\<close>

definition drawn :: "nat \<Rightarrow> string \<Rightarrow> CIDAllocator \<Rightarrow> CIDAllocator" where
  "drawn i cid c = c\<lparr>groupIndex := i,
                      groups := (groups c)[i := groups c ! i - {cid}],
                      allocated := insert cid (allocated c)\<rparr>"

definition released :: "nat \<Rightarrow> string \<Rightarrow> CIDAllocator \<Rightarrow> CIDAllocator" where
  "released idx cid c = c\<lparr>allocated := allocated c - {cid},
                            groups := (groups c)[idx := insert cid (groups c ! idx)],
                            groupIndex := min idx (groupIndex c)\<rparr>"

text \<open>Membership of a code in a partition of the tables, and the inputs of the
  worked examples: a key order that yields \<open>000\<close> first, and a small allocator.\<close>

definition has :: "nat \<Rightarrow> string \<Rightarrow> cid_tables \<Rightarrow> bool" where
  "has k s t = (k < length (fst t) \<and> s \<in> fst t ! k)"

definition ord0 :: "string set \<Rightarrow> string list" where
  "ord0 g = (if ''000'' \<in> g then ''000'' # sorted_list_of_set (g - {''000''})
             else sorted_list_of_set g)"

definition tinyAllocator :: CIDAllocator where
  "tinyAllocator = \<lparr>groups = [{''001''}, {}], cidGroup = [''001'' \<mapsto> 0, ''002'' \<mapsto> 0, ''00P'' \<mapsto> 1],
                    groupIndex = 1, allocated = {''002'', ''00P''}\<rparr>"

section \<open>Sim (pkg/sim/sim.go)\<close>

text \<open>
  Instants (\<open>time.Time\<close>) and durations (\<open>time.Duration\<close>, a 64-bit count of
  nanoseconds) are integers counting nanoseconds.  \<open>t.After(u)\<close> is \<open>u < t\<close>,
  \<open>t.Add(d)\<close> is \<open>t + d\<close>.
\<close>

type_synonym time = int
type_synonym duration = int

definition Second :: duration where
  "Second = 1000000000"

text \<open>
  Aircraft, controllers and events are declared in files that are not part of the
  sources at hand.  The records below carry the fields that \<open>sim.go\<close> reads and
  writes; a Go string field that is not set holds the empty string.  \<open>Controller\<close>
  values are only stored and looked up.
\<close>

record Aircraft =
  Callsign :: string
  TrackingController :: string
  HandoffTrackController :: string
  ControllingController :: string

typedecl Controller

datatype EventType =
    StatusMessageEvent
  | GlobalMessageEvent
  | AcceptedHandoffEvent
  | AcknowledgedPointOutEvent
  | OfferedHandoffEvent
  | RadioTransmissionEvent

record Event =
  Type :: EventType
  Message :: string
  EvFromController :: string
  EvToController :: string
  EvCallsign :: string

record Handoff =
  AutoAcceptTime :: time
  ReceivingFacility :: string

record PointOut =
  FromController :: string
  ToController :: string
  AcceptTime :: time

record LaunchConfig =
  Controller :: string

text \<open>
  The part of \<open>State\<close> that \<open>sim.go\<close> touches in the functions modelled here.  The
  map \<open>Aircraft\<close> holds pointers in Go; writing a field through the pointer is an
  update of the map at the aircraft's key.
\<close>

record State =
  Aircraft :: "string \<rightharpoonup> Aircraft"
  Controllers :: "string \<rightharpoonup> Controller"
  HumanControllers :: "string list"
  PrimaryController :: string
  LaunchConfig :: LaunchConfig
  SimTime :: time
  Paused :: bool

text \<open>
  \<open>humanControllers\<close> maps a position to its event subscription; the subscription
  objects belong to the event stream, so the model keeps the key set.  The event stream
  is the list of events posted so far, oldest first.  \<open>Handoffs\<close> and \<open>PointOuts\<close> are
  Go maps that the tick iterates over; they are association lists with distinct keys
  whose order stands for the order in which \<open>range\<close> produces the entries, which Go
  leaves open.
\<close>

record Sim =
  State :: State
  SignOnPositions :: "string \<rightharpoonup> Controller"
  humanControllers :: "string set"
  eventStream :: "Event list"
  Handoffs :: "(string \<times> Handoff) list"
  PointOuts :: "(string \<times> PointOut) list"
  lastSimUpdate :: time
  updateTimeSlop :: duration
  lastUpdateTime :: time
  prespawn :: bool
  Instructors :: "string \<rightharpoonup> bool"

datatype sim_error =
    ErrControllerAlreadySignedIn
  | ErrInvalidController
  | ErrNoController

definition Post :: "Event \<Rightarrow> Sim \<Rightarrow> Sim" where
  "Post e s = s\<lparr>eventStream := eventStream s @ [e]\<rparr>"

definition delete_key :: "string \<Rightarrow> (string \<times> 'v) list \<Rightarrow> (string \<times> 'v) list" where
  "delete_key k m = filter (\<lambda>kv. fst kv \<noteq> k) m"

definition isActiveHumanController :: "string \<Rightarrow> Sim \<Rightarrow> bool" where
  "isActiveHumanController tcp s = (tcp \<in> humanControllers s)"

subsection \<open>Sign-on and sign-off\<close>

text \<open>\<open>signOn\<close>; \<open>now\<close> is the result of \<open>time.Now()\<close>.\<close>

definition signOn :: "time \<Rightarrow> string \<Rightarrow> bool \<Rightarrow> Sim \<Rightarrow> sim_error + Sim" where
  "signOn now tcp instructor s =
     (if tcp \<in> humanControllers s then Inl ErrControllerAlreadySignedIn
      else if tcp \<in> dom (Controllers (State s)) then Inl ErrInvalidController
      else if tcp \<notin> dom (SignOnPositions s) then Inl ErrNoController
      else
        let s1 = s\<lparr>humanControllers := insert tcp (humanControllers s),
                   State := (State s)\<lparr>
                      Controllers := (Controllers (State s))(tcp := SignOnPositions s tcp),
                      HumanControllers := HumanControllers (State s) @ [tcp]\<rparr>\<rparr>;
            s2 = (if tcp = PrimaryController (State s1) then s1\<lparr>lastUpdateTime := now\<rparr> else s1);
            s3 = (if instructor then s2\<lparr>Instructors := (Instructors s2)(tcp \<mapsto> True)\<rparr> else s2)
        in Inr (Post \<lparr>Type = StatusMessageEvent, Message = tcp @ '' has signed on.'',
                      EvFromController = [], EvToController = [], EvCallsign = []\<rparr> s3))"

text \<open>
  Modelled from the spec: \<open>Aircraft.HandleControllerDisconnect\<close> is declared outside the
  sources at hand.  The spec says of sign-off that "every aircraft currently tracked by
  that position is handed to the scenario's fallback/primary controller": an aircraft
  whose tracking controller is the departing position gets the primary controller as
  its tracking controller, every other aircraft is left alone.
\<close>

definition HandleControllerDisconnect :: "string \<Rightarrow> string \<Rightarrow> Aircraft \<Rightarrow> Aircraft" where
  "HandleControllerDisconnect tcp primaryController ac =
     (if TrackingController ac = tcp then ac\<lparr>TrackingController := primaryController\<rparr> else ac)"

text \<open>
  \<open>SignOff\<close>.  The loop over \<open>State.Aircraft\<close> treats every aircraft on its own, so it
  is a pointwise map.  \<open>slices.DeleteFunc\<close> removes every occurrence of the position.
\<close>

definition SignOff :: "string \<Rightarrow> Sim \<Rightarrow> sim_error + Sim" where
  "SignOff tcp s =
     (if tcp \<notin> humanControllers s then Inl ErrNoController
      else
        let st = State s;
            st1 = st\<lparr>Aircraft := (\<lambda>k. map_option
                        (HandleControllerDisconnect tcp (PrimaryController st)) (Aircraft st k))\<rparr>;
            st2 = (if tcp = Controller (LaunchConfig st1)
                   then st1\<lparr>LaunchConfig := (LaunchConfig st1)\<lparr>Controller := []\<rparr>\<rparr> else st1);
            st3 = st2\<lparr>Controllers := (Controllers st2)(tcp := None),
                      HumanControllers := filter (\<lambda>c. c \<noteq> tcp) (HumanControllers st2)\<rparr>;
            s1 = s\<lparr>humanControllers := humanControllers s - {tcp},
                   Instructors := (Instructors s)(tcp := None),
                   State := st3\<rparr>
        in Inr (Post \<lparr>Type = StatusMessageEvent, Message = tcp @ '' has signed off.'',
                      EvFromController = [], EvToController = [], EvCallsign = []\<rparr> s1))"

text \<open>\<open>Activate\<close> and \<open>IdleTime\<close>; \<open>now\<close> is the wall clock.  \<open>State.Activate\<close> (outside
  the sources at hand) re-attaches the logger and is left out.\<close>

definition Activate :: "time \<Rightarrow> Sim \<Rightarrow> Sim" where
  "Activate now s = s\<lparr>humanControllers := {},
                       State := (State s)\<lparr>HumanControllers := []\<rparr>,
                       lastUpdateTime := now\<rparr>"

definition IdleTime :: "time \<Rightarrow> Sim \<Rightarrow> duration" where
  "IdleTime now s = now - lastUpdateTime s"

subsection \<open>The tick\<close>

text \<open>
  One entry of the loop over \<open>Handoffs\<close> in \<open>updateState\<close>; \<open>now\<close> is \<open>State.SimTime\<close>,
  read once before the loops.  The call into the STARS and ERAM computers between the
  event and the reassignment updates the facility automation, which the model does not
  carry, and its errors are discarded by the code.
\<close>

definition handoffStep :: "time \<Rightarrow> string \<times> Handoff \<Rightarrow> Sim \<Rightarrow> Sim" where
  "handoffStep now = (\<lambda>(callsign, ho) s.
     if \<not> AutoAcceptTime ho < now \<and> \<not> prespawn s then s
     else
       let s1 =
         (case Aircraft (State s) callsign of
            None \<Rightarrow> s
          | Some ac \<Rightarrow>
              if HandoffTrackController ac \<noteq> [] then
                if \<not> isActiveHumanController (HandoffTrackController ac) s then
                  let s' = Post \<lparr>Type = AcceptedHandoffEvent, Message = [],
                                   EvFromController = TrackingController ac,
                                   EvToController = HandoffTrackController ac,
                                   EvCallsign = Callsign ac\<rparr> s;
                      ac' = ac\<lparr>TrackingController := HandoffTrackController ac,
                                HandoffTrackController := []\<rparr>
                  in s'\<lparr>State := (State s')\<lparr>Aircraft := (Aircraft (State s'))(callsign \<mapsto> ac')\<rparr>\<rparr>
                else s
              else s)
       in s1\<lparr>Handoffs := delete_key callsign (Handoffs s1)\<rparr>)"

text \<open>One entry of the loop over \<open>PointOuts\<close>.\<close>

definition pointOutStep :: "time \<Rightarrow> string \<times> PointOut \<Rightarrow> Sim \<Rightarrow> Sim" where
  "pointOutStep now = (\<lambda>(callsign, po) s.
     if \<not> AcceptTime po < now then s
     else
       case Aircraft (State s) callsign of
         None \<Rightarrow> s
       | Some ac \<Rightarrow>
           if \<not> isActiveHumanController (ToController po) s then
             let s' = Post \<lparr>Type = AcknowledgedPointOutEvent, Message = [],
                              EvFromController = ToController po,
                              EvToController = FromController po,
                              EvCallsign = Callsign ac\<rparr> s
             in s'\<lparr>PointOuts := delete_key callsign (PointOuts s')\<rparr>
           else s)"

text \<open>
  The two loops.  A Go \<open>range\<close> over a map from which the body deletes only the current
  key visits every entry that was present at the start exactly once.
\<close>

definition resolveHandoffs :: "Sim \<Rightarrow> Sim" where
  "resolveHandoffs s = fold (handoffStep (SimTime (State s))) (Handoffs s) s"

definition resolvePointOuts :: "time \<Rightarrow> Sim \<Rightarrow> Sim" where
  "resolvePointOuts now s = fold (pointOutStep now) (PointOuts s) s"

text \<open>
  \<open>updateState\<close>.  The third part of the tick, which runs when a second of simulated time
  has passed since \<open>lastSimUpdate\<close>, moves the aircraft, handles waypoints, spawns new
  traffic and updates the facility computers; all of it calls functions outside the
  sources at hand, and it is the parameter \<open>advance\<close>.
\<close>

definition updateState :: "(Sim \<Rightarrow> Sim) \<Rightarrow> Sim \<Rightarrow> Sim" where
  "updateState advance s =
     (let now = SimTime (State s);
          s1 = resolveHandoffs s;
          s2 = resolvePointOuts now s1
      in if now - lastSimUpdate s2 \<ge> Second then advance (s2\<lparr>lastSimUpdate := now\<rparr>) else s2)"

text \<open>
  Go's 64-bit signed arithmetic on durations, with the wrap-around written out, and
  \<open>Duration.Truncate\<close>, which rounds towards zero to a multiple of \<open>m\<close>
  (\<open>d - d % m\<close> with Go's truncating remainder).
\<close>

definition wrap64 :: "int \<Rightarrow> int" where
  "wrap64 x = (x + 2 ^ 63) mod 2 ^ 64 - 2 ^ 63"

definition go_rem :: "int \<Rightarrow> int \<Rightarrow> int" where
  "go_rem a b = sgn a * (\<bar>a\<bar> mod \<bar>b\<bar>)"

definition Truncate :: "duration \<Rightarrow> duration \<Rightarrow> duration" where
  "Truncate d m = (if m \<le> 0 then d else wrap64 (d - go_rem d m))"

text \<open>
  \<open>Update\<close>.  \<open>t1\<close> is the wall clock read by \<open>time.Since\<close>, \<open>t2\<close> the one read by the
  final \<open>time.Now()\<close>.  The product \<open>SimRate * float32(elapsed)\<close> is computed in
  floating point and converted back to a duration; \<open>scale\<close> stands for that
  computation at the current \<open>SimRate\<close>.  The consistency check of every aircraft
  (\<open>ac.Check\<close>) only logs.  \<open>Seconds()\<close> of a whole number of seconds is exact, so the
  number of steps is the truncated duration divided by one second; the \<open>for\<close> loop runs
  that many times, not at all when the number is not positive.
\<close>

definition tick :: "(Sim \<Rightarrow> Sim) \<Rightarrow> Sim \<Rightarrow> Sim" where
  "tick advance s = updateState advance (s\<lparr>State := (State s)\<lparr>SimTime := SimTime (State s) + Second\<rparr>\<rparr>)"

definition Update :: "(Sim \<Rightarrow> Sim) \<Rightarrow> (duration \<Rightarrow> duration) \<Rightarrow> time \<Rightarrow> time \<Rightarrow> Sim \<Rightarrow> Sim" where
  "Update advance scale t1 t2 s =
     (if Paused (State s) then s
      else if \<not> isActiveHumanController (PrimaryController (State s)) s then s
      else
        let elapsed = wrap64 (scale (t1 - lastUpdateTime s) + updateTimeSlop s);
            ns = Truncate elapsed Second div Second;
            s1 = ((tick advance) ^^ nat ns) s
        in s1\<lparr>updateTimeSlop := wrap64 (elapsed - Truncate elapsed Second),
               lastUpdateTime := t2\<rparr>)"

text \<open>The state after the two loops at the head of \<open>updateState\<close>.\<close>

definition resolveTimers :: "Sim \<Rightarrow> Sim" where
  "resolveTimers s = resolvePointOuts (SimTime (State s)) (resolveHandoffs s)"

text \<open>
  What the two loops leave alone: the roster of human positions, the clocks and the
  pause flag, which aircraft exist and what they are called; and they only append to
  the event stream.
\<close>

definition frame :: "Sim \<Rightarrow> Sim \<Rightarrow> bool" where
  "frame s s' =
     (humanControllers s' = humanControllers s \<and> prespawn s' = prespawn s \<and>
      SimTime (State s') = SimTime (State s) \<and> Paused (State s') = Paused (State s) \<and>
      PrimaryController (State s') = PrimaryController (State s) \<and>
      lastSimUpdate s' = lastSimUpdate s \<and> updateTimeSlop s' = updateTimeSlop s \<and>
      lastUpdateTime s' = lastUpdateTime s \<and>
      (\<forall>k. map_option Callsign (Aircraft (State s') k) = map_option Callsign (Aircraft (State s) k)) \<and>
      (\<exists>es. eventStream s' = eventStream s @ es))"

text \<open>
  A run of \<open>Update\<close> calls that find the sim unpaused and the primary controller signed
  on.  Between two calls anything may happen to the sim (sign-ons, commands, calls of
  \<open>Update\<close> that return early) as long as the simulated clock and the leftover time are
  as the previous call left them; no other function of \<open>sim.go\<close> writes them.  The list
  collects the scaled elapsed time that each call measures.
\<close>

inductive active_updates :: "(Sim \<Rightarrow> Sim) \<Rightarrow> Sim \<Rightarrow> duration list \<Rightarrow> Sim \<Rightarrow> bool"
  for advance :: "Sim \<Rightarrow> Sim" and s :: Sim
where
  start: "active_updates advance s [] s"
| call: "active_updates advance s es s1 \<Longrightarrow>
         SimTime (State s2) = SimTime (State s1) \<Longrightarrow>
         updateTimeSlop s2 = updateTimeSlop s1 \<Longrightarrow>
         \<not> Paused (State s2) \<Longrightarrow>
         isActiveHumanController (PrimaryController (State s2)) s2 \<Longrightarrow>
         active_updates advance s (es @ [scale (t1 - lastUpdateTime s2)])
            (Update advance scale t1 t2 s2)"

subsection \<open>States of the worked examples\<close>

text \<open>
  A sim with the human positions \<open>A\<close> (the primary controller) and \<open>B\<close>, and two aircraft:
  \<open>N1\<close> tracked by \<open>A\<close>, \<open>N2\<close> tracked by \<open>B\<close> and offered to the position \<open>C\<close>, where
  nobody is signed on.  \<open>B\<close> holds launch control.  Simulated time is 5 s.
\<close>

definition ac1 :: Aircraft where
  "ac1 = \<lparr>Callsign = ''N1'', TrackingController = ''A'', HandoffTrackController = [],
          ControllingController = ''A''\<rparr>"

definition ac2 :: Aircraft where
  "ac2 = \<lparr>Callsign = ''N2'', TrackingController = ''B'', HandoffTrackController = ''C'',
          ControllingController = ''B''\<rparr>"

definition st0 :: State where
  "st0 = \<lparr>Aircraft = [''N1'' \<mapsto> ac1, ''N2'' \<mapsto> ac2], Controllers = Map.empty,
          HumanControllers = [''A'', ''B''], PrimaryController = ''A'',
          LaunchConfig = \<lparr>Controller = ''B''\<rparr>, SimTime = 5 * Second, Paused = False\<rparr>"

definition sim0 :: Sim where
  "sim0 = \<lparr>State = st0, SignOnPositions = Map.empty, humanControllers = {''A'', ''B''},
           eventStream = [], Handoffs = [], PointOuts = [],
           lastSimUpdate = 5 * Second, updateTimeSlop = 0, lastUpdateTime = 0,
           prespawn = False, Instructors = Map.empty\<rparr>"

text \<open>
  The same sim with timers running: the handoff of \<open>N2\<close> to \<open>C\<close> has its deadline at 6 s;
  \<open>N1\<close> has been pointed out to \<open>C\<close> with deadline 5 s; and a point-out with deadline 0
  is still recorded for \<open>N9\<close>, an aircraft that is no longer in the sim.
\<close>

definition simH :: Sim where
  "simH = sim0\<lparr>
     Handoffs := [(''N2'', \<lparr>AutoAcceptTime = 6 * Second, ReceivingFacility = []\<rparr>)],
     PointOuts := [(''N1'', \<lparr>FromController = ''A'', ToController = ''C'', AcceptTime = 5 * Second\<rparr>),
                   (''N9'', \<lparr>FromController = ''B'', ToController = ''C'', AcceptTime = 0\<rparr>)]\<rparr>"

definition at_time :: "time \<Rightarrow> Sim \<Rightarrow> Sim" where
  "at_time t s = s\<lparr>State := (State s)\<lparr>SimTime := t\<rparr>\<rparr>"

text \<open>
  Two calls of \<open>Update\<close> on \<open>sim0\<close> at sim rate 2 (the scaling doubles the elapsed time),
  with nothing to do in the per-aircraft part of the tick: the first 0.7 s after the
  last update, the second 0.85 s after the first one returned.
\<close>

definition double_rate :: "duration \<Rightarrow> duration" where
  "double_rate d = 2 * d"

definition simW1 :: Sim where
  "simW1 = Update id double_rate 700000000 710000000 sim0"

definition simW2 :: Sim where
  "simW2 = Update id double_rate 1560000000 1570000000 simW1"

section \<open>SimManager (server/manager.go)\<close>

text \<open>
  The manager keeps pointers: \<open>simSessions\<close> maps a name to a \<open>*simSession\<close>, a session
  points to its \<open>*sim.Sim\<close>, and \<open>sessionsByToken\<close> maps a token to a
  \<open>controllerSession\<close>, the pair of a session pointer and a position.  The model keeps
  the session objects and the sim objects in two stores, lists indexed by address; a
  new object is appended, so its address is fresh.  \<open>simSessions\<close> is iterated over by
  \<open>SimShouldExit\<close> and is an association list with distinct keys.  The speech
  websocket of a connection and the fields that only serve the HTTP and
  text-to-speech surface are left out.
\<close>

record connectionState =
  token :: string
  lastUpdateCall :: time
  warnedNoUpdateCalls :: bool
  disableTextToSpeech :: bool

record simSession =
  name :: string
  scenarioGroup :: string
  scenario :: string
  sim :: nat
  password :: string
  connectionsByTCP :: "string \<rightharpoonup> connectionState"

record SimManager =
  simSessions :: "(string \<times> nat) list"
  sessionsByToken :: "string \<rightharpoonup> (nat \<times> string)"
  local :: bool
  sessions :: "simSession list"
  sims :: "Sim list"

record NewSimConfiguration =
  NewSimName :: string
  GroupName :: string
  ScenarioName :: string
  Password :: string
  Instructor :: bool
  DisableTextToSpeech :: bool

record NewSimResult =
  ControllerToken :: string

datatype server_error =
    ErrDuplicateSimName
  | ErrInvalidSSimConfiguration
  | ErrNoSimForControllerToken
  | SimError sim_error       \<comment> \<open>an error of the sim, passed through\<close>
  | RandomSourceError        \<comment> \<open>the error of a failing \<open>crypto/rand.Read\<close>\<close>

text \<open>
  What a call of \<open>Add\<close> reads from outside: the wall clock at \<open>Activate\<close>, at the
  sign-on and at \<open>AddHumanController\<close>; the token that the random source yields
  (nothing when it fails); and \<open>Sim.Prespawn\<close>, which is outside the sources at hand.
\<close>

record AddEnv =
  activateTime :: time
  signOnTime :: time
  connectTime :: time
  randomToken :: "string option"
  runPrespawn :: "Sim \<Rightarrow> Sim"

definition put_key :: "string \<Rightarrow> 'v \<Rightarrow> (string \<times> 'v) list \<Rightarrow> (string \<times> 'v) list" where
  "put_key k v m = (k, v) # delete_key k m"

text \<open>\<open>simSession.AddHumanController\<close>, on the session at address \<open>sa\<close>.\<close>

definition AddHumanController ::
  "time \<Rightarrow> nat \<Rightarrow> string \<Rightarrow> string \<Rightarrow> bool \<Rightarrow> SimManager \<Rightarrow> SimManager" where
  "AddHumanController now sa tcp tok disableTTS sm =
     (let ss = sessions sm ! sa;
          ss' = ss\<lparr>connectionsByTCP := (connectionsByTCP ss)(tcp \<mapsto>
                    \<lparr>token = tok, lastUpdateCall = now, warnedNoUpdateCalls = False,
                     disableTextToSpeech = disableTTS\<rparr>)\<rparr>
      in sm\<lparr>sessions := (sessions sm)[sa := ss']\<rparr>)"

text \<open>
  \<open>SimManager.signOn\<close>: sign on at the session's sim, then draw the token.  The sim is
  changed as soon as its own sign-on succeeds, also when the random source fails
  afterwards.
\<close>

definition manager_signOn ::
  "AddEnv \<Rightarrow> nat \<Rightarrow> string \<Rightarrow> bool \<Rightarrow> SimManager \<Rightarrow> (server_error + string) \<times> SimManager" where
  "manager_signOn env sa position instructor sm =
     (let a = sim (sessions sm ! sa) in
      case signOn (signOnTime env) position instructor (sims sm ! a) of
        Inl err \<Rightarrow> (Inl (SimError err), sm)
      | Inr s' \<Rightarrow>
          let sm' = sm\<lparr>sims := (sims sm)[a := s']\<rparr> in
          (case randomToken env of
             None \<Rightarrow> (Inl RandomSourceError, sm')
           | Some tok \<Rightarrow> (Inr tok, sm')))"

text \<open>
  \<open>SimManager.Add\<close> for the session at address \<open>sa\<close>.  The sim of the new session is
  activated first; then the name is checked; an empty name is never a duplicate.  The
  background task that drives \<open>Update\<close> is started at the end and is not part of the
  call's result; the state snapshot in the result comes from code outside the sources
  at hand, so the result is the token.
\<close>

definition Add ::
  "AddEnv \<Rightarrow> nat \<Rightarrow> string \<Rightarrow> bool \<Rightarrow> bool \<Rightarrow> bool \<Rightarrow> SimManager
     \<Rightarrow> (server_error + NewSimResult) \<times> SimManager" where
  "Add env sa initialTCP instructor doPrespawn disableTTS sm =
     (let ss = sessions sm ! sa;
          a = sim ss;
          sm1 = sm\<lparr>sims := (sims sm)[a := Activate (activateTime env) (sims sm ! a)]\<rparr>
      in if map_of (simSessions sm1) (name ss) \<noteq> None \<and> name ss \<noteq> []
         then (Inl ErrDuplicateSimName, sm1)
         else
           let sm2 = sm1\<lparr>simSessions := put_key (name ss) sa (simSessions sm1)\<rparr> in
           case manager_signOn env sa initialTCP instructor sm2 of
             (Inl err, sm3) \<Rightarrow> (Inl err, sm3)
           | (Inr tok, sm3) \<Rightarrow>
               let sm4 = AddHumanController (connectTime env) sa initialTCP tok disableTTS sm3;
                   sm5 = sm4\<lparr>sessionsByToken := (sessionsByToken sm4)(tok \<mapsto> (sa, initialTCP))\<rparr>;
                   sm6 = (if doPrespawn
                          then sm5\<lparr>sims := (sims sm5)[a := runPrespawn env (sims sm5 ! a)]\<rparr>
                          else sm5)
               in (Inr \<lparr>ControllerToken = tok\<rparr>, sm6))"

text \<open>
  \<open>SimManager.NewSim\<close>.  \<open>makeSimConfiguration\<close> and \<open>sim.NewSim\<close> validate the
  configuration against the scenario tables and build the new sim; \<open>built\<close> is their
  outcome, nothing when the configuration is rejected.  The new sim and the new session
  are fresh objects.
\<close>

definition NewSim ::
  "AddEnv \<Rightarrow> Sim option \<Rightarrow> NewSimConfiguration \<Rightarrow> SimManager
     \<Rightarrow> (server_error + NewSimResult) \<times> SimManager" where
  "NewSim env built config sm =
     (case built of
        None \<Rightarrow> (Inl ErrInvalidSSimConfiguration, sm)
      | Some s0 \<Rightarrow>
          let session = \<lparr>name = NewSimName config, scenarioGroup = GroupName config,
                         scenario = ScenarioName config, sim = length (sims sm),
                         password = Password config, connectionsByTCP = Map.empty\<rparr>;
              sm1 = sm\<lparr>sims := sims sm @ [s0], sessions := sessions sm @ [session]\<rparr>
          in Add env (length (sessions sm)) (PrimaryController (State s0))
                 (Instructor config) True (DisableTextToSpeech config) sm1)"

text \<open>
  \<open>SimShouldExit\<close> for the sim at address \<open>a\<close>; \<open>now\<close> is the wall clock, taken as
  one reading for the whole call.
\<close>

definition simIdleLimit :: duration where
  "simIdleLimit = 4 * 3600 * Second"

definition session_idle :: "time \<Rightarrow> SimManager \<Rightarrow> string \<times> nat \<Rightarrow> bool" where
  "session_idle now sm = (\<lambda>(n, sa). IdleTime now (sims sm ! sim (sessions sm ! sa)) \<ge> simIdleLimit)"

definition SimShouldExit :: "time \<Rightarrow> SimManager \<Rightarrow> nat \<Rightarrow> bool" where
  "SimShouldExit now sm a =
     (if IdleTime now (sims sm ! a) < simIdleLimit then False
      else
        let nIdle = length (filter (session_idle now sm) (simSessions sm))
        in nIdle > 10)"

text \<open>The registered sessions other than the one that runs the sim at address \<open>a\<close>.\<close>

definition other_sessions :: "SimManager \<Rightarrow> nat \<Rightarrow> (string \<times> nat) list" where
  "other_sessions sm a = filter (\<lambda>(n, sa). sim (sessions sm ! sa) \<noteq> a) (simSessions sm)"

subsection \<open>Managers of the worked examples\<close>

text \<open>
  A manager with one session \<open>alpha\<close> running \<open>sim0\<close>; a sim that nobody has signed on
  to yet, with the sign-on position \<open>A\<close>; and a manager with eleven sessions whose sims
  were all updated last at wall-clock time 0.
\<close>

definition env0 :: AddEnv where
  "env0 = \<lparr>activateTime = 10, signOnTime = 11, connectTime = 12,
           randomToken = Some ''dG9rZW4='', runPrespawn = id\<rparr>"

definition freshSim :: Sim where
  "freshSim = sim0\<lparr>humanControllers := {}, SignOnPositions := [''A'' \<mapsto> undefined],
                    State := st0\<lparr>HumanControllers := []\<rparr>\<rparr>"

definition mgr1 :: SimManager where
  "mgr1 = \<lparr>simSessions = [(''alpha'', 0)], sessionsByToken = [''t0'' \<mapsto> (0, ''A'')],
           local = False,
           sessions = [\<lparr>name = ''alpha'', scenarioGroup = ''g'', scenario = ''sc'', sim = 0,
                        password = [], connectionsByTCP = Map.empty\<rparr>],
           sims = [sim0]\<rparr>"

definition cfg :: "string \<Rightarrow> NewSimConfiguration" where
  "cfg n = \<lparr>NewSimName = n, GroupName = ''g'', ScenarioName = ''sc'', Password = [],
            Instructor = False, DisableTextToSpeech = False\<rparr>"

definition names11 :: "string list" where
  "names11 = [''s0'', ''s1'', ''s2'', ''s3'', ''s4'', ''s5'', ''s6'', ''s7'', ''s8'', ''s9'', ''s10'']"

definition mgr11 :: SimManager where
  "mgr11 = \<lparr>simSessions = zip names11 [0..<11], sessionsByToken = Map.empty, local = False,
            sessions = map (\<lambda>k. \<lparr>name = names11 ! k, scenarioGroup = ''g'', scenario = ''sc'',
                                    sim = k, password = [], connectionsByTCP = Map.empty\<rparr>) [0..<11],
            sims = replicate 11 sim0\<rparr>"

definition mgr10 :: SimManager where
  "mgr10 = mgr11\<lparr>simSessions := zip names11 [0..<10]\<rparr>"

section \<open>The command interpreter (\<open>Dispatcher.RunAircraftCommands\<close>)\<close>

subsection \<open>Strings and numbers of the Go library\<close>

text \<open>
  A Go string is a sequence of bytes.  \<open>strings.Fields\<close> splits around runs of white
  space as \<open>unicode.IsSpace\<close> defines it: the six ASCII characters tab, line feed,
  vertical tab, form feed, carriage return and space, and the UTF-8 encodings of U+0085,
  U+00A0, U+1680, U+2000 to U+200A, U+2028, U+2029, U+202F, U+205F and U+3000.  A lead
  byte always starts a rune, so these encodings are white space wherever they occur.
  \<open>spaceLen s\<close> is the number of bytes of the white-space rune at the head of \<open>s\<close>,
  0 when there is none.
\<close>

definition byte :: "char \<Rightarrow> nat" where
  "byte c = of_char c"

fun spaceLen :: "string \<Rightarrow> nat" where
  "spaceLen [] = 0"
| "spaceLen (c # cs) =
     (if byte c = 9 \<or> byte c = 10 \<or> byte c = 11 \<or> byte c = 12 \<or> byte c = 13 \<or> byte c = 32 then 1
      else if byte c = 194 then
        (case cs of d # _ \<Rightarrow> if byte d = 133 \<or> byte d = 160 then 2 else 0 | _ \<Rightarrow> 0)
      else if byte c = 225 then
        (case cs of d # e # _ \<Rightarrow> if byte d = 154 \<and> byte e = 128 then 3 else 0 | _ \<Rightarrow> 0)
      else if byte c = 226 then
        (case cs of d # e # _ \<Rightarrow>
           if byte d = 128 \<and> (128 \<le> byte e \<and> byte e \<le> 138 \<or> byte e = 168 \<or> byte e = 169 \<or> byte e = 175)
              \<or> byte d = 129 \<and> byte e = 159
           then 3 else 0
         | _ \<Rightarrow> 0)
      else if byte c = 227 then
        (case cs of d # e # _ \<Rightarrow> if byte d = 128 \<and> byte e = 128 then 3 else 0 | _ \<Rightarrow> 0)
      else 0)"

text \<open>\<open>fieldsFrom cur s\<close>: the fields of \<open>s\<close> when \<open>cur\<close> is the field read so far.\<close>

function fieldsFrom :: "string \<Rightarrow> string \<Rightarrow> string list" where
  "fieldsFrom cur [] = (if cur = [] then [] else [cur])"
| "fieldsFrom cur (c # cs) =
     (if spaceLen (c # cs) = 0 then fieldsFrom (cur @ [c]) cs
      else (if cur = [] then [] else [cur]) @ fieldsFrom [] (drop (spaceLen (c # cs) - 1) cs))"
  by pat_completeness auto
termination
  by (relation "measure (\<lambda>(cur, s). length s)") auto

definition Fields :: "string \<Rightarrow> string list" where
  "Fields s = fieldsFrom [] s"

text \<open>\<open>strings.Split(s, "/")\<close> for a one-byte separator, and \<open>strings.Join\<close>.\<close>

fun splitFrom :: "char \<Rightarrow> string \<Rightarrow> string \<Rightarrow> string list" where
  "splitFrom sep cur [] = [cur]"
| "splitFrom sep cur (c # cs) =
     (if c = sep then cur # splitFrom sep [] cs else splitFrom sep (cur @ [c]) cs)"

definition Split :: "string \<Rightarrow> char \<Rightarrow> string list" where
  "Split s sep = splitFrom sep [] s"

fun Join :: "string list \<Rightarrow> string \<Rightarrow> string" where
  "Join [] sep = []"
| "Join [x] sep = x"
| "Join (x # y # ys) sep = x @ sep @ Join (y # ys) sep"

text \<open>
  Go's \<open>int\<close> is a 64-bit signed integer: a 64-bit word, read with \<open>sint\<close>; arithmetic
  wraps around.
\<close>

type_synonym go_int = "64 word"

datatype cmd_error =
    ErrInvalidCommandSyntax
  | NumErrorSyntax string     \<comment> \<open>\<open>strconv.Atoi\<close>: invalid syntax, with the input\<close>
  | NumErrorRange string      \<comment> \<open>\<open>strconv.Atoi\<close>: value out of range, with the input\<close>
  | OtherError string         \<comment> \<open>an error of the aviation or sim package, with its message\<close>

definition isDigit :: "char \<Rightarrow> bool" where
  "isDigit c = (48 \<le> byte c \<and> byte c \<le> 57)"

text \<open>
  \<open>strconv.Atoi\<close> has two paths.  An input of 1 to 18 bytes takes the fast path: an
  optional sign, then the digits are summed up in a loop that fails with a syntax error
  at the first byte that is not a decimal digit (\<open>digitsValue\<close>; 18 digits always fit).
  Every other input goes to \<open>ParseInt(s, 10, 0)\<close>, which strips the sign and calls
  \<open>ParseUint\<close>.  The loop of \<open>ParseUint\<close> reads the bytes from the left and returns at
  the first byte that is not a digit (syntax error) or at the first digit with which the
  value no longer fits 64 bits (range error, with the value \<open>2^64 - 1\<close>), whichever comes
  first.  The value so far is an unbounded integer here; the two overflow tests of the loop,
  \<open>n >= cutoff\<close> and \<open>n1 < n || n1 > maxVal\<close> on unsigned 64-bit numbers, are the two
  comparisons below.  \<open>ParseInt\<close> returns a syntax error as it is and otherwise checks the
  value against the signed range.
\<close>

fun digitsValue :: "int \<Rightarrow> string \<Rightarrow> int option" where
  "digitsValue acc [] = Some acc"
| "digitsValue acc (c # cs) =
     (if isDigit c then digitsValue (acc * 10 + (int (byte c) - 48)) cs else None)"

datatype num_error = ErrSyntax | ErrRange

fun parseUintLoop :: "int \<Rightarrow> string \<Rightarrow> int \<times> num_error option" where
  "parseUintLoop n [] = (n, None)"
| "parseUintLoop n (c # cs) =
     (if \<not> isDigit c then (0, Some ErrSyntax)
      else if (2 ^ 64 - 1) div 10 + 1 \<le> n then (2 ^ 64 - 1, Some ErrRange)
      else if 2 ^ 64 - 1 < n * 10 + (int (byte c) - 48) then (2 ^ 64 - 1, Some ErrRange)
      else parseUintLoop (n * 10 + (int (byte c) - 48)) cs)"

definition ParseUint :: "string \<Rightarrow> int \<times> num_error option" where
  "ParseUint s = (if s = [] then (0, Some ErrSyntax) else parseUintLoop 0 s)"

definition ParseInt :: "string \<Rightarrow> cmd_error + go_int" where
  "ParseInt s0 =
     (if s0 = [] then Inl (NumErrorSyntax s0)
      else
        let neg = (hd s0 = CHR ''-'');
            s = (if hd s0 = CHR ''+'' \<or> hd s0 = CHR ''-'' then tl s0 else s0);
            un = fst (ParseUint s);
            err = snd (ParseUint s)
        in if err = Some ErrSyntax then Inl (NumErrorSyntax s0)
           else if \<not> neg \<and> 2 ^ 63 \<le> un then Inl (NumErrorRange s0)
           else if neg \<and> 2 ^ 63 < un then Inl (NumErrorRange s0)
           else Inr (if neg then - word_of_int un else word_of_int un))"

definition Atoi :: "string \<Rightarrow> cmd_error + go_int" where
  "Atoi s0 =
     (if 0 < length s0 \<and> length s0 < 19 then
        (let signed = (hd s0 = CHR ''-'' \<or> hd s0 = CHR ''+'');
             s = (if signed then tl s0 else s0)
         in if signed \<and> s = [] then Inl (NumErrorSyntax s0)
            else case digitsValue 0 s of
                   None \<Rightarrow> Inl (NumErrorSyntax s0)
                 | Some n \<Rightarrow> Inr (if hd s0 = CHR ''-'' then - word_of_int n else word_of_int n))
      else ParseInt s0)"

subsection \<open>The engine as seen by the interpreter\<close>

text \<open>
  The operations of \<open>Sim\<close> that the interpreter calls, and the types of the aviation
  package they take, are declared outside the sources at hand.  An engine operation
  with its arguments is a value of \<open>EngineCall\<close>; the engine itself is a parameter.
  \<open>HeadingArgs\<close> has the fields the interpreter sets; \<open>TurnUnset\<close> is the zero value of
  the turn method.  An altitude restriction carries the two ends of its range, of a
  numeric type \<open>'r\<close> declared elsewhere (any type with a multiplication and numerals);
  a squawk code is of type \<open>'q\<close>.
\<close>

datatype TurnMethod = TurnUnset | TurnClosest | TurnLeft | TurnRight

datatype TransponderMode = Standby | Altitude | On

record HeadingArgs =
  ArgTCP :: string
  ArgCallsign :: string
  Heading :: go_int
  Present :: bool
  LeftDegrees :: go_int
  RightDegrees :: go_int
  Turn :: TurnMethod

record 'r AltitudeRestriction =
  Range0 :: 'r
  Range1 :: 'r

datatype ('r, 'q) EngineCall =
    CancelApproachClearance
  | ClimbViaSID
  | ClearedApproach string bool
  | CrossFixAt string "'r AltitudeRestriction option" go_int
  | AtFixCleared string string
  | AssignAltitude go_int bool
  | DescendViaSTAR
  | DepartFixDirect string string
  | DepartFixHeading string go_int
  | DirectFix string
  | ExpediteDescent
  | ExpediteClimb
  | ExpectApproach string
  | HandoffControl
  | AssignHeading HeadingArgs
  | InterceptLocalizer
  | Ident
  | AssignSpeed go_int bool
  | MaintainSlowestPractical
  | MaintainMaximumForward
  | SaySpeed
  | ChangeTransponderMode TransponderMode
  | ChangeSquawk 'q
  | SayHeading
  | SayAltitude
  | ContactTower
  | DeleteAircraft

text \<open>
  What the interpreter takes from outside, for a sim whose state is of type \<open>'w\<close>:
  \<open>util.IsAllNumbers\<close>, \<open>strings.ToUpper\<close>, \<open>strconv.Quote\<close> (used in the message of a
  number error), \<open>av.ParseAltitudeRestriction\<close>, \<open>av.ParseSquawk\<close>, \<open>State.Locate\<close>, the
  engine (which returns its error, if any, and the sim after the call), and
  \<open>LookupController\<close>, which resolves a token to a position of the sim at hand.
\<close>

record ('w, 'r, 'q) CmdEnv =
  IsAllNumbers :: "string \<Rightarrow> bool"
  ToUpper :: "string \<Rightarrow> string"
  Quote :: "string \<Rightarrow> string"
  ParseAltitudeRestriction :: "string \<Rightarrow> cmd_error + 'r AltitudeRestriction"
  ParseSquawk :: "string \<Rightarrow> cmd_error + 'q"
  Locate :: "'w \<Rightarrow> string \<Rightarrow> bool"
  engine :: "string \<Rightarrow> string \<Rightarrow> ('r, 'q) EngineCall \<Rightarrow> 'w \<Rightarrow> cmd_error option \<times> 'w"
  LookupController :: "string \<Rightarrow> string option"

text \<open>\<open>err.Error()\<close>.\<close>

definition ErrorText :: "('w, 'r, 'q) CmdEnv \<Rightarrow> cmd_error \<Rightarrow> string" where
  "ErrorText env e =
     (case e of
        ErrInvalidCommandSyntax \<Rightarrow> ''Invalid command syntax''
      | NumErrorSyntax s \<Rightarrow> ''strconv.Atoi: parsing '' @ Quote env s @ '': invalid syntax''
      | NumErrorRange s \<Rightarrow> ''strconv.Atoi: parsing '' @ Quote env s @ '': value out of range''
      | OtherError m \<Rightarrow> m)"

definition headingArgs :: "string \<Rightarrow> string \<Rightarrow> HeadingArgs" where
  "headingArgs tcp callsign =
     \<lparr>ArgTCP = tcp, ArgCallsign = callsign, Heading = 0, Present = False,
      LeftDegrees = 0, RightDegrees = 0, Turn = TurnUnset\<rparr>"

subsection \<open>One command token\<close>

text \<open>
  Every branch of the \<open>switch\<close> either fails before it calls the engine or makes exactly
  one engine call, so a token is first turned into the engine call it makes (or the
  error it fails with), and the call is made afterwards.  The functions below follow
  the branches of the \<open>switch\<close> in source order; \<open>drop n\<close> is the slice \<open>command[n:]\<close>.
\<close>

text \<open>The clauses after the fix of a cross-fix command: \<open>A\<close> with an altitude restriction,
  \<open>S\<close> with a speed; a later clause of a kind replaces an earlier one.\<close>

fun crossClauses ::
  "('w, 'r::{times,numeral}, 'q) CmdEnv \<Rightarrow> string list \<Rightarrow> 'r AltitudeRestriction option \<Rightarrow> go_int
     \<Rightarrow> cmd_error + ('r AltitudeRestriction option \<times> go_int)" where
  "crossClauses env [] ar speed = Inr (ar, speed)"
| "crossClauses env (cmd # rest) ar speed =
     (if cmd = [] then Inl ErrInvalidCommandSyntax
      else if hd cmd = CHR ''A'' \<and> length cmd > 1 then
        (case ParseAltitudeRestriction env (drop 1 cmd) of
           Inl err \<Rightarrow> Inl err
         | Inr a \<Rightarrow> crossClauses env rest
                      (Some (a\<lparr>Range0 := Range0 a * 100, Range1 := Range1 a * 100\<rparr>)) speed)
      else if hd cmd = CHR ''S'' then
        (case Atoi (drop 1 cmd) of
           Inl err \<Rightarrow> Inl err
         | Inr kts \<Rightarrow> crossClauses env rest ar kts)
      else Inl ErrInvalidCommandSyntax)"

definition parseAC :: "('w, 'r::{times,numeral}, 'q) CmdEnv \<Rightarrow> string \<Rightarrow> cmd_error + ('r, 'q) EngineCall" where
  "parseAC env command =
     (if command = ''CAC'' then Inr CancelApproachClearance
      else if command = ''CVS'' then Inr ClimbViaSID
      else if length command > 4 \<and> take 3 command = ''CSI'' \<and> \<not> IsAllNumbers env (drop 3 command)
        then Inr (ClearedApproach (drop 3 command) True)
      else if hd command = CHR ''C'' \<and> length command > 2 \<and> \<not> IsAllNumbers env (drop 1 command) then
        (let components = Split command CHR ''/'' in
         if length components > 1 then
           (case crossClauses env (tl components) None 0 of
              Inl err \<Rightarrow> Inl err
            | Inr (ar, speed) \<Rightarrow> Inr (CrossFixAt (drop 1 (hd components)) ar speed))
         else Inr (ClearedApproach (drop 1 command) False))
      else if hd command = CHR ''A'' then
        (let components = Split command CHR ''/'' in
         if length components \<noteq> 2 \<or> length (components ! 1) = 0 \<or> hd (components ! 1) \<noteq> CHR ''C''
         then Inl ErrInvalidCommandSyntax
         else Inr (AtFixCleared (ToUpper env (drop 1 (components ! 0))) (drop 1 (components ! 1))))
      else
        (case Atoi (drop 1 command) of
           Inl err \<Rightarrow> Inl err
         | Inr alt \<Rightarrow> Inr (AssignAltitude (100 * alt) False)))"

definition parseD :: "('w, 'r, 'q) CmdEnv \<Rightarrow> 'w \<Rightarrow> string \<Rightarrow> cmd_error + ('r, 'q) EngineCall" where
  "parseD env w command =
     (if command = ''DVS'' then Inr DescendViaSTAR
      else
        let components = Split command CHR ''/'' in
        if length components > 1 \<and> length (components ! 1) > 1 then
          (let fix = drop 1 (components ! 0) in
           if hd (components ! 1) = CHR ''D'' then Inr (DepartFixDirect fix (drop 1 (components ! 1)))
           else if hd (components ! 1) = CHR ''H'' then
             (case Atoi (drop 1 (components ! 1)) of
                Inl err \<Rightarrow> Inl err
              | Inr hdg \<Rightarrow> Inr (DepartFixHeading fix hdg))
           else Inl ErrInvalidCommandSyntax)
        else if length command > 1 \<and> isDigit (command ! 1) then
          (case Atoi (drop 1 command) of
             Inl err \<Rightarrow> Inl err
           | Inr alt \<Rightarrow> Inr (AssignAltitude (100 * alt) False))
        else if Locate env w (drop 1 command) then Inr (DirectFix (drop 1 command))
        else Inl ErrInvalidCommandSyntax)"

definition parseE :: "string \<Rightarrow> cmd_error + ('r, 'q) EngineCall" where
  "parseE command =
     (if command = ''ED'' then Inr ExpediteDescent
      else if command = ''EC'' then Inr ExpediteClimb
      else if length command > 1 then Inr (ExpectApproach (drop 1 command))
      else Inl ErrInvalidCommandSyntax)"

definition parseF :: "string \<Rightarrow> cmd_error + ('r, 'q) EngineCall" where
  "parseF command =
     (if command = ''FC'' then Inr HandoffControl else Inl ErrInvalidCommandSyntax)"

definition parseH :: "string \<Rightarrow> string \<Rightarrow> string \<Rightarrow> cmd_error + ('r, 'q) EngineCall" where
  "parseH tcp callsign command =
     (if length command = 1 then Inr (AssignHeading ((headingArgs tcp callsign)\<lparr>Present := True\<rparr>))
      else case Atoi (drop 1 command) of
             Inl err \<Rightarrow> Inl err
           | Inr hdg \<Rightarrow> Inr (AssignHeading ((headingArgs tcp callsign)\<lparr>Heading := hdg, Turn := TurnClosest\<rparr>)))"

definition parseI :: "string \<Rightarrow> cmd_error + ('r, 'q) EngineCall" where
  "parseI command =
     (if length command = 1 then Inr InterceptLocalizer
      else if command = ''ID'' then Inr Ident
      else Inl ErrInvalidCommandSyntax)"

definition parseL :: "string \<Rightarrow> string \<Rightarrow> string \<Rightarrow> cmd_error + ('r, 'q) EngineCall" where
  "parseL tcp callsign command =
     (let l = length command in
      if l > 2 \<and> command ! (l - 1) = CHR ''D'' then
        (case Atoi (take (l - 2) (drop 1 command)) of
           Inl err \<Rightarrow> Inl err
         | Inr deg \<Rightarrow> Inr (AssignHeading ((headingArgs tcp callsign)\<lparr>LeftDegrees := deg\<rparr>)))
      else
        (case Atoi (drop 1 command) of
           Inl err \<Rightarrow> Inl err
         | Inr hdg \<Rightarrow> Inr (AssignHeading ((headingArgs tcp callsign)\<lparr>Heading := hdg, Turn := TurnLeft\<rparr>))))"

definition parseR :: "string \<Rightarrow> string \<Rightarrow> string \<Rightarrow> cmd_error + ('r, 'q) EngineCall" where
  "parseR tcp callsign command =
     (let l = length command in
      if l > 2 \<and> command ! (l - 1) = CHR ''D'' then
        (case Atoi (take (l - 2) (drop 1 command)) of
           Inl err \<Rightarrow> Inl err
         | Inr deg \<Rightarrow> Inr (AssignHeading ((headingArgs tcp callsign)\<lparr>RightDegrees := deg\<rparr>)))
      else
        (case Atoi (drop 1 command) of
           Inl err \<Rightarrow> Inl err
         | Inr hdg \<Rightarrow> Inr (AssignHeading ((headingArgs tcp callsign)\<lparr>Heading := hdg, Turn := TurnRight\<rparr>))))"

definition parseS :: "('w, 'r, 'q) CmdEnv \<Rightarrow> string \<Rightarrow> cmd_error + ('r, 'q) EngineCall" where
  "parseS env command =
     (if length command = 1 then Inr (AssignSpeed 0 False)
      else if command = ''SMIN'' then Inr MaintainSlowestPractical
      else if command = ''SMAX'' then Inr MaintainMaximumForward
      else if command = ''SS'' then Inr SaySpeed
      else if command = ''SQS'' then Inr (ChangeTransponderMode Standby)
      else if command = ''SQA'' then Inr (ChangeTransponderMode Altitude)
      else if command = ''SQON'' then Inr (ChangeTransponderMode On)
      else if length command = 6 \<and> take 2 command = ''SQ'' then
        (case ParseSquawk env (drop 2 command) of
           Inl err \<Rightarrow> Inl err
         | Inr sq \<Rightarrow> Inr (ChangeSquawk sq))
      else if command = ''SH'' then Inr SayHeading
      else if command = ''SA'' then Inr SayAltitude
      else case Atoi (drop 1 command) of
             Inl err \<Rightarrow> Inl err
           | Inr kts \<Rightarrow> Inr (AssignSpeed kts False))"

text \<open>In the \<open>T\<close> branch a number followed by \<open>L\<close> or \<open>R\<close> is a turn by degrees; when the
  middle part is not a number, or the last character is neither, the two-letter
  commands are tried.\<close>

definition parseT :: "string \<Rightarrow> string \<Rightarrow> string \<Rightarrow> cmd_error + ('r, 'q) EngineCall" where
  "parseT tcp callsign command =
     (if command = ''TO'' then Inr ContactTower
      else
        let n = length command in
        if n > 2 then
          (let twoLetter =
             (if take 2 command = ''TS'' then
                (case Atoi (drop 2 command) of
                   Inl err \<Rightarrow> Inl err
                 | Inr kts \<Rightarrow> Inr (AssignSpeed kts True))
              else if take 2 command = ''TA'' \<or> take 2 command = ''TC'' \<or> take 2 command = ''TD'' then
                (case Atoi (drop 2 command) of
                   Inl err \<Rightarrow> Inl err
                 | Inr alt \<Rightarrow> Inr (AssignAltitude (100 * alt) True))
              else Inl ErrInvalidCommandSyntax)
           in case Atoi (take (n - 2) (drop 1 command)) of
                Inr deg \<Rightarrow>
                  if command ! (n - 1) = CHR ''L''
                    then Inr (AssignHeading ((headingArgs tcp callsign)\<lparr>LeftDegrees := deg\<rparr>))
                  else if command ! (n - 1) = CHR ''R''
                    then Inr (AssignHeading ((headingArgs tcp callsign)\<lparr>RightDegrees := deg\<rparr>))
                  else twoLetter
              | Inl err \<Rightarrow> twoLetter)
        else Inl ErrInvalidCommandSyntax)"

text \<open>The \<open>switch\<close> on the first character.  \<open>strings.Fields\<close> never yields an empty
  token; for an empty one \<open>command[0]\<close> would panic, and the handler installed by
  \<open>CatchAndReportCrash\<close> would end the call.\<close>

datatype 'a token_result = IndexPanic | Parsed 'a

definition parseCommand ::
  "('w, 'r::{times,numeral}, 'q) CmdEnv \<Rightarrow> string \<Rightarrow> string \<Rightarrow> 'w \<Rightarrow> string
     \<Rightarrow> (cmd_error + ('r, 'q) EngineCall) token_result" where
  "parseCommand env tcp callsign w command =
     (case command of
        [] \<Rightarrow> IndexPanic
      | c # _ \<Rightarrow> Parsed
          (if c = CHR ''A'' \<or> c = CHR ''C'' then parseAC env command
           else if c = CHR ''D'' then parseD env w command
           else if c = CHR ''E'' then parseE command
           else if c = CHR ''F'' then parseF command
           else if c = CHR ''H'' then parseH tcp callsign command
           else if c = CHR ''I'' then parseI command
           else if c = CHR ''L'' then parseL tcp callsign command
           else if c = CHR ''R'' then parseR tcp callsign command
           else if c = CHR ''S'' then parseS env command
           else if c = CHR ''T'' then parseT tcp callsign command
           else if c = CHR ''X'' then Inr DeleteAircraft
           else Inl ErrInvalidCommandSyntax))"

subsection \<open>The loop over the tokens\<close>

record AircraftCommandsArgs =
  ArgsControllerToken :: string
  ArgsCallsign :: string
  Commands :: string

record AircraftCommandsResult =
  ErrorMessage :: string
  RemainingInput :: string

text \<open>\<open>rewriteError\<close> at the token that heads \<open>remaining\<close>.\<close>

definition rewriteError ::
  "('w, 'r, 'q) CmdEnv \<Rightarrow> string list \<Rightarrow> cmd_error \<Rightarrow> AircraftCommandsResult \<Rightarrow> AircraftCommandsResult" where
  "rewriteError env remaining err result =
     result\<lparr>RemainingInput := Join remaining '' '', ErrorMessage := ErrorText env err\<rparr>"

text \<open>
  One token: the outcome is the error that stops the loop, if any, and the sim after the
  token.  The error of \<open>DeleteAircraft\<close> (the \<open>X\<close> command) is dropped by the code.
\<close>

definition execToken ::
  "('w, 'r::{times,numeral}, 'q) CmdEnv \<Rightarrow> string \<Rightarrow> string \<Rightarrow> string \<Rightarrow> 'w
     \<Rightarrow> (cmd_error option \<times> 'w) token_result" where
  "execToken env tcp callsign command w =
     (case parseCommand env tcp callsign w command of
        IndexPanic \<Rightarrow> IndexPanic
      | Parsed (Inl err) \<Rightarrow> Parsed (Some err, w)
      | Parsed (Inr call) \<Rightarrow>
          (case engine env tcp callsign call w of
             (err, w') \<Rightarrow> Parsed (if call = DeleteAircraft then None else err, w')))"

text \<open>
  The loop.  The result of the whole call is what Go returns as its \<open>error\<close> (the panic
  of an empty token is caught and the call returns without one), the result structure
  and the sim.
\<close>

fun runCommands ::
  "('w, 'r::{times,numeral}, 'q) CmdEnv \<Rightarrow> string \<Rightarrow> string \<Rightarrow> string list
     \<Rightarrow> AircraftCommandsResult \<Rightarrow> 'w \<Rightarrow> AircraftCommandsResult \<times> 'w" where
  "runCommands env tcp callsign [] result w = (result, w)"
| "runCommands env tcp callsign (command # rest) result w =
     (case execToken env tcp callsign command w of
        IndexPanic \<Rightarrow> (result, w)
      | Parsed (Some err, w') \<Rightarrow> (rewriteError env (command # rest) err result, w')
      | Parsed (None, w') \<Rightarrow> runCommands env tcp callsign rest result w')"

definition RunAircraftCommands ::
  "('w, 'r::{times,numeral}, 'q) CmdEnv \<Rightarrow> AircraftCommandsArgs \<Rightarrow> AircraftCommandsResult \<Rightarrow> 'w
     \<Rightarrow> server_error option \<times> AircraftCommandsResult \<times> 'w" where
  "RunAircraftCommands env cmds result w =
     (case LookupController env (ArgsControllerToken cmds) of
        None \<Rightarrow> (Some ErrNoSimForControllerToken, result, w)
      | Some tcp \<Rightarrow>
          (case runCommands env tcp (ArgsCallsign cmds) (Fields (Commands cmds)) result w of
             (result', w') \<Rightarrow> (None, result', w')))"

subsection \<open>Tokens run one after the other\<close>

text \<open>
  \<open>execAll env tcp callsign tokens w\<close> is the sim after the tokens have been run from
  left to right, each on the sim its predecessor left and each without an error; it is
  \<open>None\<close> when one of them fails.
\<close>

fun execAll ::
  "('w, 'r::{times,numeral}, 'q) CmdEnv \<Rightarrow> string \<Rightarrow> string \<Rightarrow> string list \<Rightarrow> 'w \<Rightarrow> 'w option" where
  "execAll env tcp callsign [] w = Some w"
| "execAll env tcp callsign (command # rest) w =
     (case execToken env tcp callsign command w of
        Parsed (None, w') \<Rightarrow> execAll env tcp callsign rest w'
      | _ \<Rightarrow> None)"

subsection \<open>An example sim for the interpreter\<close>

text \<open>
  A sim that is the list of the engine calls made on it, each with the position and the
  callsign it was made for; every call succeeds.  The token \<open>tokA\<close> belongs to position
  \<open>A\<close>.  Altitude restrictions are a single number of hundreds of feet here.
\<close>

definition upperChar :: "char \<Rightarrow> char" where
  "upperChar c = (if 97 \<le> byte c \<and> byte c \<le> 122 then char_of (byte c - 32) else c)"

definition logEnv :: "((string \<times> string \<times> (int, string) EngineCall) list, int, string) CmdEnv" where
  "logEnv =
     \<lparr>IsAllNumbers = list_all isDigit,
      ToUpper = map upperChar,
      Quote = (\<lambda>s. [CHR 0x22] @ s @ [CHR 0x22]),
      ParseAltitudeRestriction =
        (\<lambda>s. case Atoi s of
                Inl err \<Rightarrow> Inl err
              | Inr n \<Rightarrow> Inr \<lparr>Range0 = sint n, Range1 = sint n\<rparr>),
      ParseSquawk = (\<lambda>s. Inr s),
      Locate = (\<lambda>w fix. False),
      engine = (\<lambda>tcp callsign call w. (None, w @ [(tcp, callsign, call)])),
      LookupController = (\<lambda>token. if token = ''tokA'' then Some ''A'' else None)\<rparr>"

definition emptyResult :: AircraftCommandsResult where
  "emptyResult = \<lparr>ErrorMessage = [], RemainingInput = []\<rparr>"

section \<open>Properties\<close>

lemma digits_pref_disj: "\<forall>ch \<in> set preferredAlphas. ch \<notin> set digits"
  by (simp add: digits_def preferredAlphas_def)

lemma digits_nonpref_disj: "\<forall>ch \<in> set nonPreferredAlphas. ch \<notin> set digits"
  by (simp add: digits_def nonPreferredAlphas_def)

lemma pref_nonpref_disj: "\<forall>ch \<in> set nonPreferredAlphas. ch \<notin> set preferredAlphas"
  by (simp add: preferredAlphas_def nonPreferredAlphas_def)

lemma cls_digit: "ch \<in> set digits \<Longrightarrow> cls ch = 0"
  by (simp add: cls_def)

lemma cls_pref: "ch \<in> set preferredAlphas \<Longrightarrow> cls ch = 1"
  using digits_pref_disj by (simp add: cls_def)

lemma cls_nonpref: "ch \<in> set nonPreferredAlphas \<Longrightarrow> cls ch = 2"
  using digits_nonpref_disj pref_nonpref_disj by (simp add: cls_def)

lemma partitionOf_lt7: "partitionOf s = Some k \<Longrightarrow> k < 7"
  unfolding partitionOf_def
  by (simp split: list.splits if_splits)

lemma add_ok:
  assumes "tables_ok t" "partitionOf [a, b, c] = Some k"
  shows "tables_ok (add k a b c t)"
proof -
  obtain gs cm where t: "t = (gs, cm)" by (cases t)
  from assms(1) have len: "length gs = 7"
    unfolding tables_ok_def t prod.case by blast
  from assms(1) have fin: "\<And>i. i < 7 \<Longrightarrow> finite (gs ! i)"
    unfolding tables_ok_def t prod.case by blast
  from assms(1) have mem: "\<And>i s. i < 7 \<Longrightarrow> s \<in> gs ! i \<Longrightarrow> cm s = Some i"
    unfolding tables_ok_def t prod.case by blast
  from assms(1) have cm7: "\<And>s i. cm s = Some i \<Longrightarrow> i < 7"
    unfolding tables_ok_def t prod.case by blast
  from assms(1) have cmm: "\<And>s i. cm s = Some i \<Longrightarrow> s \<in> gs ! i"
    unfolding tables_ok_def t prod.case by blast
  from assms(1) have cmp: "\<And>s i. cm s = Some i \<Longrightarrow> partitionOf s = Some i"
    unfolding tables_ok_def t prod.case by blast
  have k7: "k < 7" using assms(2) by (rule partitionOf_lt7)
  let ?w = "[a, b, c]"
  let ?gs = "gs[k := insert ?w (gs ! k)]"
  let ?cm = "cm(?w \<mapsto> k)"
  have nk: "?gs ! k = insert ?w (gs ! k)" using k7 len by simp
  have ni: "\<And>i. i \<noteq> k \<Longrightarrow> ?gs ! i = gs ! i" by simp
  have A: "length ?gs = 7" using len by simp
  have B: "\<forall>i<7. finite (?gs ! i) \<and> (\<forall>s\<in>?gs ! i. ?cm s = Some i)"
  proof (intro allI impI conjI ballI)
    fix i :: nat assume i: "i < 7"
    show "finite (?gs ! i)"
    proof (cases "i = k")
      case True then show ?thesis using nk fin[OF i] by simp
    next
      case False then show ?thesis using ni fin[OF i] by simp
    qed
    fix s assume s: "s \<in> ?gs ! i"
    show "?cm s = Some i"
    proof (cases "i = k")
      case True
      then have "s = ?w \<or> s \<in> gs ! k" using s nk by simp
      then show ?thesis using mem[OF k7] True by fastforce
    next
      case False
      then have si: "s \<in> gs ! i" using s ni by simp
      then have c: "cm s = Some i" using mem[OF i] by simp
      then have "partitionOf s = Some i" by (rule cmp)
      then have "s \<noteq> ?w" using assms(2) False by auto
      then show ?thesis using c by simp
    qed
  qed
  have C: "\<forall>s i. ?cm s = Some i \<longrightarrow> i < 7 \<and> s \<in> ?gs ! i \<and> partitionOf s = Some i"
  proof (intro allI impI)
    fix s i assume h: "?cm s = Some i"
    show "i < 7 \<and> s \<in> ?gs ! i \<and> partitionOf s = Some i"
    proof (cases "s = ?w")
      case True
      then have "i = k" using h by simp
      then show ?thesis using True k7 nk assms(2) by simp
    next
      case False
      then have c: "cm s = Some i" using h by simp
      have "s \<in> ?gs ! i"
      proof (cases "i = k")
        case True then show ?thesis using cmm[OF c] nk by simp
      next
        case False then show ?thesis using cmm[OF c] ni by simp
      qed
      then show ?thesis using cm7[OF c] cmp[OF c] by simp
    qed
  qed
  show ?thesis
    unfolding tables_ok_def t add_def Let_def prod.case
    using A B C by blast
qed

lemma fold_ok:
  assumes "tables_ok s" "\<And>x s. x \<in> set xs \<Longrightarrow> tables_ok s \<Longrightarrow> tables_ok (f x s)"
  shows "tables_ok (fold f xs s)"
  using assms by (induction xs arbitrary: s) simp_all

lemma nest1_ok:
  assumes "tables_ok t"
    and "\<And>z. z \<in> set zs \<Longrightarrow> partitionOf [x, y, z] = Some k"
  shows "tables_ok (fold (\<lambda>z. add k x y z) zs t)"
  using assms(1)
proof (rule fold_ok)
  fix z s assume "z \<in> set zs" "tables_ok s"
  then show "tables_ok (add k x y z s)" using assms(2) add_ok by blast
qed

lemma nest2_ok:
  assumes "tables_ok t"
    and "\<And>y z. y \<in> set ys \<Longrightarrow> z \<in> set zs \<Longrightarrow> partitionOf [x, y, z] = Some k"
  shows "tables_ok (fold (\<lambda>y. fold (\<lambda>z. add k x y z) zs) ys t)"
  using assms(1)
proof (rule fold_ok)
  fix y s assume "y \<in> set ys" "tables_ok s"
  then show "tables_ok (fold (\<lambda>z. add k x y z) zs s)" using assms(2) nest1_ok by blast
qed

lemma nest_ok:
  assumes "tables_ok t"
    and "\<And>x y z. x \<in> set xs \<Longrightarrow> y \<in> set ys \<Longrightarrow> z \<in> set zs \<Longrightarrow> partitionOf [x, y, z] = Some k"
  shows "tables_ok (fold (\<lambda>x. fold (\<lambda>y. fold (\<lambda>z. add k x y z) zs) ys) xs t)"
  using assms(1)
proof (rule fold_ok)
  fix x s assume "x \<in> set xs" "tables_ok s"
  then show "tables_ok (fold (\<lambda>y. fold (\<lambda>z. add k x y z) zs) ys s)"
    using assms(2) nest2_ok by blast
qed

lemma empty_ok: "tables_ok (replicate 7 {}, Map.empty)"
  unfolding tables_ok_def prod.case by simp

lemma fill0_ok: "tables_ok t \<Longrightarrow> tables_ok (fill0 t)"
  unfolding fill0_def by (rule nest_ok) (simp_all add: partitionOf_def cls_digit)

lemma fill1_ok: "tables_ok t \<Longrightarrow> tables_ok (fill1 t)"
  unfolding fill1_def by (rule nest_ok) (simp_all add: partitionOf_def cls_digit cls_pref)

lemma fill2_ok: "tables_ok t \<Longrightarrow> tables_ok (fill2 t)"
  unfolding fill2_def by (rule nest_ok) (simp_all add: partitionOf_def cls_digit cls_pref)

lemma fill3_ok: "tables_ok t \<Longrightarrow> tables_ok (fill3 t)"
  unfolding fill3_def by (rule nest_ok) (simp_all add: partitionOf_def cls_digit cls_pref)

lemma fill4_ok: "tables_ok t \<Longrightarrow> tables_ok (fill4 t)"
  unfolding fill4_def by (rule nest_ok) (simp_all add: partitionOf_def cls_digit cls_nonpref)

lemma fill6_ok: "tables_ok t \<Longrightarrow> tables_ok (fill6 t)"
  unfolding fill6_def by (rule nest_ok) (simp_all add: partitionOf_def cls_digit cls_nonpref)

lemma fill5_ok: "tables_ok t \<Longrightarrow> tables_ok (fill5 t)"
  unfolding fill5_def
proof (rule fold_ok, assumption)
  fix d t assume d: "d \<in> set digits" and t: "tables_ok t"
  have 1: "tables_ok (fold (\<lambda>a1 t'. fold (\<lambda>a2. add 5 d a1 a2) preferredAlphas
                         (fold (\<lambda>a2. add 5 d a1 a2) nonPreferredAlphas t'))
           nonPreferredAlphas t)"
    using t
  proof (rule fold_ok)
    fix a1 t' assume a1: "a1 \<in> set nonPreferredAlphas" and t': "tables_ok t'"
    have "tables_ok (fold (\<lambda>a2. add 5 d a1 a2) nonPreferredAlphas t')"
      by (rule nest1_ok[OF t']) (simp add: partitionOf_def cls_digit[OF d] cls_nonpref a1)
    then show "tables_ok (fold (\<lambda>a2. add 5 d a1 a2) preferredAlphas
                         (fold (\<lambda>a2. add 5 d a1 a2) nonPreferredAlphas t'))"
      by (rule nest1_ok)
         (simp add: partitionOf_def cls_digit[OF d] cls_nonpref a1 cls_pref)
  qed
  show "tables_ok (fold (\<lambda>a1. fold (\<lambda>a2. add 5 d a1 a2) nonPreferredAlphas) preferredAlphas
        (fold (\<lambda>a1 t'. fold (\<lambda>a2. add 5 d a1 a2) preferredAlphas
                         (fold (\<lambda>a2. add 5 d a1 a2) nonPreferredAlphas t'))
           nonPreferredAlphas t))"
    by (rule nest2_ok[OF 1]) (simp add: partitionOf_def cls_digit[OF d] cls_nonpref cls_pref)
qed

lemma generate_ok: "tables_ok generateCIDGroups"
  unfolding generateCIDGroups_def
  by (intro fill6_ok fill5_ok fill4_ok fill3_ok fill2_ok fill1_ok fill0_ok empty_ok)

lemma pick_in:
  assumes "go_range ord" "finite g" "g \<noteq> {}"
  shows "pick r ord g \<in> g"
proof -
  have s: "set (ord g) = g" and d: "distinct (ord g)"
    using assms(1,2) unfolding go_range_def by blast+
  have "card (set (ord g)) = length (ord g)" using d by (rule distinct_card)
  then have l: "length (ord g) = card g" using s by simp
  have "0 < card g" using assms(2,3) by (simp add: card_gt_0_iff)
  then have n: "r mod card g < length (ord g)" using l by simp
  then have "ord g ! (r mod card g) \<in> set (ord g)" by (rule nth_mem)
  then show ?thesis using n s by (simp add: pick_def)
qed

lemma Allocate_exhausted:
  assumes "\<forall>i. groupIndex c \<le> i \<and> i < length (groups c) \<longrightarrow> groups c ! i = {}"
  shows "\<exists>k. Allocate r ord c = (Inl NoMoreCIDs, c\<lparr>groupIndex := k\<rparr>)"
  using assms
proof (induction r ord c rule: Allocate.induct)
  case (1 r ord c)
  show ?case
  proof (cases "groupIndex c < length (groups c)")
    case False
    then have "Allocate r ord c = (Inl NoMoreCIDs, c\<lparr>groupIndex := groupIndex c\<rparr>)"
      by (subst Allocate.simps) simp
    then show ?thesis by (rule exI)
  next
    case True
    then have e: "groups c ! groupIndex c = {}" using "1.prems" by simp
    let ?c = "c\<lparr>groupIndex := groupIndex c + 1\<rparr>"
    have c0: "card (groups c ! groupIndex c) = 0" using e by simp
    have "\<exists>k. Allocate r ord ?c = (Inl NoMoreCIDs, ?c\<lparr>groupIndex := k\<rparr>)"
      using "1.prems" by (intro "1.IH"[OF True refl c0]) simp
    then obtain k where "Allocate r ord ?c = (Inl NoMoreCIDs, ?c\<lparr>groupIndex := k\<rparr>)" ..
    then have "Allocate r ord c = (Inl NoMoreCIDs, c\<lparr>groupIndex := k\<rparr>)"
      using True e by (subst Allocate.simps) simp
    then show ?thesis by (rule exI)
  qed
qed

lemma Allocate_draw:
  assumes "groupIndex c \<le> i" "i < length (groups c)"
    "groups c ! i \<noteq> {}" "finite (groups c ! i)"
    "\<forall>j. groupIndex c \<le> j \<and> j < i \<longrightarrow> groups c ! j = {}"
  shows "Allocate r ord c =
           (Inr (pick r ord (groups c ! i)),
            c\<lparr>groupIndex := i,
              groups := (groups c)[i := groups c ! i - {pick r ord (groups c ! i)}],
              allocated := insert (pick r ord (groups c ! i)) (allocated c)\<rparr>)"
  using assms
proof (induction r ord c rule: Allocate.induct)
  case (1 r ord c)
  have lt: "groupIndex c < length (groups c)" using "1.prems" by simp
  show ?case
  proof (cases "groupIndex c = i")
    case True
    have "card (groups c ! i) \<noteq> 0" using "1.prems" by simp
    then show ?thesis using lt True
      by (subst Allocate.simps) (simp add: pick_def Let_def)
  next
    case False
    then have lti: "groupIndex c < i" using "1.prems" by simp
    then have e: "groups c ! groupIndex c = {}" using "1.prems" by simp
    have c0: "card (groups c ! groupIndex c) = 0" using e by simp
    let ?c = "c\<lparr>groupIndex := groupIndex c + 1\<rparr>"
    have "Allocate r ord ?c =
           (Inr (pick r ord (groups ?c ! i)),
            ?c\<lparr>groupIndex := i,
              groups := (groups ?c)[i := groups ?c ! i - {pick r ord (groups ?c ! i)}],
              allocated := insert (pick r ord (groups ?c ! i)) (allocated ?c)\<rparr>)"
      using lti "1.prems" by (intro "1.IH"[OF lt refl c0]) simp_all
    then show ?thesis using lt e
      by (subst Allocate.simps) simp
  qed
qed

lemma cid_invD:
  assumes "cid_inv c"
  shows "length (groups c) = 7"
    and "cidGroup c = snd generateCIDGroups"
    and "\<And>i. i < 7 \<Longrightarrow> finite (groups c ! i)"
    and "\<And>i s. i < 7 \<Longrightarrow> s \<in> groups c ! i \<Longrightarrow> cidGroup c s = Some i"
    and "\<And>i s. i < 7 \<Longrightarrow> s \<in> groups c ! i \<Longrightarrow> s \<notin> allocated c"
    and "\<And>s. s \<in> allocated c \<Longrightarrow> \<exists>i<7. cidGroup c s = Some i"
    and "\<And>i. i < 7 \<Longrightarrow> i < groupIndex c \<Longrightarrow> groups c ! i = {}"
  using assms unfolding cid_inv_def by blast+

lemma cid_invI:
  assumes "length (groups c) = 7"
    and "cidGroup c = snd generateCIDGroups"
    and "\<And>i. i < 7 \<Longrightarrow> finite (groups c ! i)"
    and "\<And>i s. i < 7 \<Longrightarrow> s \<in> groups c ! i \<Longrightarrow> cidGroup c s = Some i"
    and "\<And>i s. i < 7 \<Longrightarrow> s \<in> groups c ! i \<Longrightarrow> s \<notin> allocated c"
    and "\<And>s. s \<in> allocated c \<Longrightarrow> \<exists>i<7. cidGroup c s = Some i"
    and "\<And>i. i < 7 \<Longrightarrow> i < groupIndex c \<Longrightarrow> groups c ! i = {}"
  shows "cid_inv c"
  using assms unfolding cid_inv_def by blast

lemma tables_okD:
  assumes "tables_ok (gs, cm)"
  shows "length gs = 7"
    and "\<And>i. i < 7 \<Longrightarrow> finite (gs ! i)"
    and "\<And>i s. i < 7 \<Longrightarrow> s \<in> gs ! i \<Longrightarrow> cm s = Some i"
    and "\<And>s i. cm s = Some i \<Longrightarrow> i < 7"
    and "\<And>s i. cm s = Some i \<Longrightarrow> s \<in> gs ! i"
    and "\<And>s i. cm s = Some i \<Longrightarrow> partitionOf s = Some i"
  using assms unfolding tables_ok_def prod.case by blast+

lemma New_inv: "cid_inv NewCIDAllocator"
proof -
  obtain gs cm where g: "generateCIDGroups = (gs, cm)" by (cases generateCIDGroups)
  have ok: "tables_ok (gs, cm)" using generate_ok g by simp
  have N: "NewCIDAllocator = \<lparr>groups = gs, cidGroup = cm, groupIndex = 0, allocated = {}\<rparr>"
    by (simp add: NewCIDAllocator_def g)
  show ?thesis
  proof (rule cid_invI)
    show "length (groups NewCIDAllocator) = 7"
      using tables_okD(1)[OF ok] by (simp add: N)
    show "cidGroup NewCIDAllocator = snd generateCIDGroups" by (simp add: N g)
    show "\<And>i. i < 7 \<Longrightarrow> finite (groups NewCIDAllocator ! i)"
      using tables_okD(2)[OF ok] by (simp add: N)
    show "\<And>i s. i < 7 \<Longrightarrow> s \<in> groups NewCIDAllocator ! i \<Longrightarrow> cidGroup NewCIDAllocator s = Some i"
      using tables_okD(3)[OF ok] by (simp add: N)
    show "\<And>i s. i < 7 \<Longrightarrow> s \<in> groups NewCIDAllocator ! i \<Longrightarrow> s \<notin> allocated NewCIDAllocator"
      by (simp add: N)
    show "\<And>s. s \<in> allocated NewCIDAllocator \<Longrightarrow> \<exists>i<7. cidGroup NewCIDAllocator s = Some i"
      by (simp add: N)
    show "\<And>i. i < 7 \<Longrightarrow> i < groupIndex NewCIDAllocator \<Longrightarrow> groups NewCIDAllocator ! i = {}"
      by (simp add: N)
  qed
qed

lemma first_nonempty:
  fixes gs :: "'a set list"
  assumes "k \<le> i" "i < length gs" "gs ! i \<noteq> {}"
  shows "\<exists>m. k \<le> m \<and> m < length gs \<and> gs ! m \<noteq> {} \<and> (\<forall>j. k \<le> j \<and> j < m \<longrightarrow> gs ! j = {})"
proof -
  define P where "P m \<longleftrightarrow> k \<le> m \<and> m < length gs \<and> gs ! m \<noteq> {}" for m
  have "P i" using assms by (simp add: P_def)
  then have L: "P (LEAST m. P m)" by (rule LeastI)
  have "\<forall>j. k \<le> j \<and> j < (LEAST m. P m) \<longrightarrow> gs ! j = {}"
  proof (intro allI impI)
    fix j assume j: "k \<le> j \<and> j < (LEAST m. P m)"
    then have "\<not> P j" using not_less_Least by blast
    moreover have "j < length gs" using j L unfolding P_def by simp
    ultimately show "gs ! j = {}" using j unfolding P_def by simp
  qed
  then show ?thesis using L unfolding P_def by blast
qed

lemma Allocate_spec:
  assumes "cid_inv c" "go_range ord"
  shows "((\<forall>i<7. groups c ! i = {}) \<and> (\<exists>k. Allocate r ord c = (Inl NoMoreCIDs, c\<lparr>groupIndex := k\<rparr>)))
       \<or> (\<exists>i<7. groupIndex c \<le> i \<and> (\<forall>j<i. groups c ! j = {}) \<and>
                 pick r ord (groups c ! i) \<in> groups c ! i \<and>
                 Allocate r ord c =
                   (Inr (pick r ord (groups c ! i)), drawn i (pick r ord (groups c ! i)) c))"
proof (cases "\<exists>i. groupIndex c \<le> i \<and> i < length (groups c) \<and> groups c ! i \<noteq> {}")
  case False
  then have a: "\<forall>i. groupIndex c \<le> i \<and> i < length (groups c) \<longrightarrow> groups c ! i = {}" by blast
  have "\<forall>i<7. groups c ! i = {}"
  proof (intro allI impI)
    fix i :: nat assume i: "i < 7"
    show "groups c ! i = {}"
    proof (cases "i < groupIndex c")
      case True then show ?thesis using cid_invD(7)[OF assms(1) i] by simp
    next
      case False then show ?thesis using a i cid_invD(1)[OF assms(1)] by simp
    qed
  qed
  then show ?thesis using Allocate_exhausted[OF a] by blast
next
  case True
  then obtain i0 where "groupIndex c \<le> i0" "i0 < length (groups c)" "groups c ! i0 \<noteq> {}" by blast
  from first_nonempty[OF this] obtain i where
    i: "groupIndex c \<le> i" "i < length (groups c)" "groups c ! i \<noteq> {}"
    and least: "\<forall>j. groupIndex c \<le> j \<and> j < i \<longrightarrow> groups c ! j = {}" by blast
  have i7: "i < 7" using i(2) cid_invD(1)[OF assms(1)] by simp
  have fin: "finite (groups c ! i)" using cid_invD(3)[OF assms(1) i7] .
  have below: "\<forall>j<i. groups c ! j = {}"
  proof (intro allI impI)
    fix j assume j: "j < i"
    show "groups c ! j = {}"
    proof (cases "j < groupIndex c")
      case True then show ?thesis using cid_invD(7)[OF assms(1), of j] j i7 by simp
    next
      case False then show ?thesis using least j by simp
    qed
  qed
  have "Allocate r ord c = (Inr (pick r ord (groups c ! i)), drawn i (pick r ord (groups c ! i)) c)"
    unfolding drawn_def by (rule Allocate_draw[OF i(1) i(2) i(3) fin least])
  then show ?thesis using i7 i(1) below pick_in[OF assms(2) fin i(3)] by blast
qed

lemma drawn_inv:
  assumes "cid_inv c" "i < 7" "cid \<in> groups c ! i" "\<forall>j<i. groups c ! j = {}"
  shows "cid_inv (drawn i cid c)"
proof (rule cid_invI)
  have len: "length (groups c) = 7" by (rule cid_invD(1)[OF assms(1)])
  have gi: "groups (drawn i cid c) ! i = groups c ! i - {cid}"
    using len assms(2) by (simp add: drawn_def)
  have gk: "\<And>k. k \<noteq> i \<Longrightarrow> groups (drawn i cid c) ! k = groups c ! k"
    by (simp add: drawn_def)
  have ci: "cidGroup c cid = Some i" by (rule cid_invD(4)[OF assms(1,2,3)])
  show "length (groups (drawn i cid c)) = 7" using len by (simp add: drawn_def)
  show "cidGroup (drawn i cid c) = snd generateCIDGroups"
    using cid_invD(2)[OF assms(1)] by (simp add: drawn_def)
  show "finite (groups (drawn i cid c) ! k)" if "k < 7" for k
    using cid_invD(3)[OF assms(1) that] gi gk by (cases "k = i") simp_all
  have sub: "s \<in> groups c ! k" if "s \<in> groups (drawn i cid c) ! k" for s k
    using that gi gk by (cases "k = i") simp_all
  show "cidGroup (drawn i cid c) s = Some k" if "k < 7" "s \<in> groups (drawn i cid c) ! k" for k s
    using cid_invD(4)[OF assms(1) that(1) sub[OF that(2)]] by (simp add: drawn_def)
  show "s \<notin> allocated (drawn i cid c)" if k: "k < 7" and s: "s \<in> groups (drawn i cid c) ! k" for k s
  proof -
    have 1: "s \<notin> allocated c" using cid_invD(5)[OF assms(1) k sub[OF s]] .
    have "s \<noteq> cid"
    proof (cases "k = i")
      case True then show ?thesis using s gi by simp
    next
      case False
      have "cidGroup c s = Some k" using cid_invD(4)[OF assms(1) k sub[OF s]] .
      then show ?thesis using ci False by auto
    qed
    then show ?thesis using 1 by (simp add: drawn_def)
  qed
  show "\<exists>k<7. cidGroup (drawn i cid c) s = Some k" if "s \<in> allocated (drawn i cid c)" for s
  proof (cases "s = cid")
    case True then show ?thesis using ci assms(2) by (auto simp: drawn_def)
  next
    case False
    then have "s \<in> allocated c" using that by (simp add: drawn_def)
    then show ?thesis using cid_invD(6)[OF assms(1)] by (simp add: drawn_def)
  qed
  show "groups (drawn i cid c) ! k = {}" if "k < 7" "k < groupIndex (drawn i cid c)" for k
  proof -
    have "k < i" using that(2) by (simp add: drawn_def)
    then show ?thesis using assms(4) gk[of k] by simp
  qed
qed

lemma Allocate_inv:
  assumes "cid_inv c" "go_range ord"
  shows "cid_inv (snd (Allocate r ord c))"
  using Allocate_spec[OF assms, of r]
proof (elim disjE conjE exE)
  fix k assume "\<forall>i<7. groups c ! i = {}" and A: "Allocate r ord c = (Inl NoMoreCIDs, c\<lparr>groupIndex := k\<rparr>)"
  then have "cid_inv (c\<lparr>groupIndex := k\<rparr>)"
    using cid_invD[OF assms(1)] by (intro cid_invI) simp_all
  then show ?thesis using A by simp
next
  fix i assume "i < 7" "\<forall>j<i. groups c ! j = {}" "pick r ord (groups c ! i) \<in> groups c ! i"
    and A: "Allocate r ord c = (Inr (pick r ord (groups c ! i)), drawn i (pick r ord (groups c ! i)) c)"
  then have "cid_inv (drawn i (pick r ord (groups c ! i)) c)"
    using drawn_inv[OF assms(1)] by blast
  then show ?thesis using A by simp
qed

lemma Release_noop: "cid \<notin> allocated c \<Longrightarrow> Release cid c = Inr c"
  by (simp add: Release_def)

lemma Release_spec:
  assumes "cid_inv c" "cid \<in> allocated c"
  shows "\<exists>idx<7. cidGroup c cid = Some idx \<and> Release cid c = Inr (released idx cid c)"
proof -
  obtain idx where idx: "idx < 7" "cidGroup c cid = Some idx"
    using cid_invD(6)[OF assms] by blast
  have len: "length (groups c) = 7" by (rule cid_invD(1)[OF assms(1)])
  have "Release cid c = Inr (released idx cid c)"
    using assms(2) idx len
    by (cases "idx < groupIndex c") (simp_all add: Release_def released_def Let_def min_def)
  then show ?thesis using idx by blast
qed

lemma released_inv:
  assumes "cid_inv c" "cid \<in> allocated c" "cidGroup c cid = Some idx" "idx < 7"
  shows "cid_inv (released idx cid c)"
proof (rule cid_invI)
  have len: "length (groups c) = 7" by (rule cid_invD(1)[OF assms(1)])
  have gi: "groups (released idx cid c) ! idx = insert cid (groups c ! idx)"
    using len assms(4) by (simp add: released_def)
  have gk: "\<And>k. k \<noteq> idx \<Longrightarrow> groups (released idx cid c) ! k = groups c ! k"
    by (simp add: released_def)
  show "length (groups (released idx cid c)) = 7" using len by (simp add: released_def)
  show "cidGroup (released idx cid c) = snd generateCIDGroups"
    using cid_invD(2)[OF assms(1)] by (simp add: released_def)
  show "finite (groups (released idx cid c) ! k)" if "k < 7" for k
    using cid_invD(3)[OF assms(1) that] gi gk by (cases "k = idx") simp_all
  show "cidGroup (released idx cid c) s = Some k"
    if k: "k < 7" and s: "s \<in> groups (released idx cid c) ! k" for k s
  proof (cases "k = idx")
    case True
    then have "s = cid \<or> s \<in> groups c ! idx" using s gi by simp
    then show ?thesis
    proof
      assume "s = cid" then show ?thesis using assms(3) True by (simp add: released_def)
    next
      assume "s \<in> groups c ! idx"
      then show ?thesis using cid_invD(4)[OF assms(1) assms(4)] True by (simp add: released_def)
    qed
  next
    case False
    then have "s \<in> groups c ! k" using s gk by simp
    then show ?thesis using cid_invD(4)[OF assms(1) k] by (simp add: released_def)
  qed
  show "s \<notin> allocated (released idx cid c)"
    if k: "k < 7" and s: "s \<in> groups (released idx cid c) ! k" for k s
  proof (cases "s = cid")
    case True then show ?thesis by (simp add: released_def)
  next
    case False
    then have "s \<in> groups c ! k" using s gi gk by (cases "k = idx") simp_all
    then show ?thesis using cid_invD(5)[OF assms(1) k] by (simp add: released_def)
  qed
  show "\<exists>k<7. cidGroup (released idx cid c) s = Some k" if "s \<in> allocated (released idx cid c)" for s
  proof -
    have "s \<in> allocated c" using that by (simp add: released_def)
    then show ?thesis using cid_invD(6)[OF assms(1)] by (simp add: released_def)
  qed
  show "groups (released idx cid c) ! k = {}"
    if "k < 7" "k < groupIndex (released idx cid c)" for k
  proof -
    have "k < idx" "k < groupIndex c" using that(2) by (simp_all add: released_def)
    then show ?thesis using gk[of k] cid_invD(7)[OF assms(1) that(1)] by simp
  qed
qed

lemma Release_inv:
  assumes "cid_inv c" "Release cid c = Inr c'"
  shows "cid_inv c'"
proof (cases "cid \<in> allocated c")
  case False
  then show ?thesis using assms Release_noop by simp
next
  case True
  from Release_spec[OF assms(1) True] obtain idx where
    "idx < 7" "cidGroup c cid = Some idx" "Release cid c = Inr (released idx cid c)" by blast
  then show ?thesis using released_inv[OF assms(1) True] assms(2) by simp
qed

lemma reach_inv: "reach c \<Longrightarrow> cid_inv c"
proof (induction rule: reach.induct)
  case init
  show ?case by (rule New_inv)
next
  case (alloc c ord r)
  then show ?case by (simp add: Allocate_inv)
next
  case (release c cid c')
  then show ?case using Release_inv by blast
qed

lemma original_partition:
  assumes "cid_inv c" "cidGroup c cid = Some idx"
  shows "cid \<in> fst generateCIDGroups ! idx"
proof -
  obtain gs cm where g: "generateCIDGroups = (gs, cm)" by (cases generateCIDGroups)
  have ok: "tables_ok (gs, cm)" using generate_ok g by simp
  have "cidGroup c = cm" using cid_invD(2)[OF assms(1)] by (simp add: g)
  then have "cm cid = Some idx" using assms(2) by simp
  then have "cid \<in> gs ! idx" by (rule tables_okD(5)[OF ok])
  then show ?thesis by (simp add: g)
qed

lemma alloc_release_alloc:
  assumes "cid_inv c" "i < 7" "cid \<in> groups c ! i" "cid = pick r ord (groups c ! i)"
  shows "Release cid (drawn i cid c) = Inr (c\<lparr>groupIndex := i\<rparr>)"
    and "fst (Allocate r ord (c\<lparr>groupIndex := i\<rparr>)) = Inr cid"
proof -
  have len: "length (groups c) = 7" by (rule cid_invD(1)[OF assms(1)])
  have ci: "cidGroup c cid = Some i" by (rule cid_invD(4)[OF assms(1,2,3)])
  have na: "cid \<notin> allocated c" by (rule cid_invD(5)[OF assms(1,2,3)])
  have fin: "finite (groups c ! i)" by (rule cid_invD(3)[OF assms(1,2)])
  have ins: "insert cid (groups c ! i - {cid}) = groups c ! i" using assms(3) by blast
  have al: "insert cid (allocated c) - {cid} = allocated c" using na by blast
  have ins': "insert cid (groups c ! i) = groups c ! i" using assms(3) by (rule insert_absorb)
  have al': "allocated c - {cid} = allocated c" using na by blast
  show "Release cid (drawn i cid c) = Inr (c\<lparr>groupIndex := i\<rparr>)"
    using ci len assms(2)
    by (simp add: Release_def drawn_def Let_def ins al ins' al')
  have ne: "groups (c\<lparr>groupIndex := i\<rparr>) ! i \<noteq> {}" using assms(3) by auto
  have "Allocate r ord (c\<lparr>groupIndex := i\<rparr>) =
         (Inr (pick r ord (groups (c\<lparr>groupIndex := i\<rparr>) ! i)),
          (c\<lparr>groupIndex := i\<rparr>)\<lparr>groupIndex := i,
              groups := (groups (c\<lparr>groupIndex := i\<rparr>))[i := groups (c\<lparr>groupIndex := i\<rparr>) ! i
                  - {pick r ord (groups (c\<lparr>groupIndex := i\<rparr>) ! i)}],
              allocated := insert (pick r ord (groups (c\<lparr>groupIndex := i\<rparr>) ! i))
                  (allocated (c\<lparr>groupIndex := i\<rparr>))\<rparr>)"
    using len assms(2) fin ne by (intro Allocate_draw) auto
  then show "fst (Allocate r ord (c\<lparr>groupIndex := i\<rparr>)) = Inr cid"
    using assms(4) by simp
qed

lemma add_has_mono: "has i s t \<Longrightarrow> has i s (add k a b c t)"
  by (cases t; cases "i = k") (simp_all add: has_def add_def Let_def)

lemma add_has_new: "k < length (fst t) \<Longrightarrow> has k [a, b, c] (add k a b c t)"
  by (cases t) (simp add: has_def add_def Let_def)

lemma fold_has:
  assumes "has i s t" "\<And>x t. has i s t \<Longrightarrow> has i s (f x t)"
  shows "has i s (fold f xs t)"
  using assms by (induction xs arbitrary: t) simp_all

lemma nest_has:
  "has i s t \<Longrightarrow> has i s (fold (\<lambda>x. fold (\<lambda>y. fold (\<lambda>z. add k x y z) zs) ys) xs t)"
  by (intro fold_has add_has_mono)

lemma fill1_has: "has i s t \<Longrightarrow> has i s (fill1 t)"
  unfolding fill1_def by (rule nest_has)

lemma fill2_has: "has i s t \<Longrightarrow> has i s (fill2 t)"
  unfolding fill2_def by (rule nest_has)

lemma fill3_has: "has i s t \<Longrightarrow> has i s (fill3 t)"
  unfolding fill3_def by (rule nest_has)

lemma fill4_has: "has i s t \<Longrightarrow> has i s (fill4 t)"
  unfolding fill4_def by (rule nest_has)

lemma fill5_has: "has i s t \<Longrightarrow> has i s (fill5 t)"
  unfolding fill5_def by (intro fold_has add_has_mono)

lemma fill6_has: "has i s t \<Longrightarrow> has i s (fill6 t)"
  unfolding fill6_def by (rule nest_has)

lemma fill0_has_000:
  assumes "0 < length (fst t)"
  shows "has 0 ''000'' (fill0 t)"
proof -
  define rest where "rest = ''123456789''"
  have d: "digits = CHR ''0'' # rest" by (simp add: digits_def rest_def)
  have 1: "has 0 ''000'' (add 0 CHR ''0'' CHR ''0'' CHR ''0'' t)"
    using assms by (rule add_has_new)
  have 2: "has 0 ''000'' (fold (\<lambda>c. add 0 CHR ''0'' CHR ''0'' c) digits t)"
    unfolding d fold_simps by (intro fold_has add_has_mono 1)
  have 3: "has 0 ''000'' (fold (\<lambda>b. fold (\<lambda>c. add 0 CHR ''0'' b c) digits) digits t)"
    by (subst d, unfold fold_simps, intro fold_has add_has_mono 2)
  show ?thesis
    unfolding fill0_def by (subst d, unfold fold_simps, intro fold_has add_has_mono 3)
qed

lemma New_has_000: "''000'' \<in> groups NewCIDAllocator ! 0"
proof -
  have "0 < length (fst (replicate 7 ({}::string set), Map.empty::string \<rightharpoonup> nat))"
    by simp
  then have "has 0 ''000'' (fill0 (replicate 7 {}, Map.empty))" by (rule fill0_has_000)
  then have "has 0 ''000'' generateCIDGroups"
    unfolding generateCIDGroups_def
    by (rule fill6_has[OF fill5_has[OF fill4_has[OF fill3_has[OF fill2_has[OF fill1_has]]]]])
  then have "''000'' \<in> fst generateCIDGroups ! 0" unfolding has_def by (rule conjunct2)
  moreover have "groups NewCIDAllocator = fst generateCIDGroups"
    by (simp add: NewCIDAllocator_def case_prod_beta)
  ultimately show ?thesis by (rule ssubst[rotated])
qed

lemma go_range_ord0: "go_range ord0"
  unfolding go_range_def ord0_def by auto

lemma pick_ord0:
  assumes "finite g" "''000'' \<in> g"
  shows "pick 0 ord0 g = ''000''"
  using assms by (simp add: pick_def ord0_def)

lemma Allocate_New:
  "Allocate 0 ord0 NewCIDAllocator = (Inr ''000'', drawn 0 ''000'' NewCIDAllocator)"
proof -
  have inv: "cid_inv NewCIDAllocator" by (rule New_inv)
  have fin: "finite (groups NewCIDAllocator ! 0)" using cid_invD(3)[OF inv] by simp
  have ne: "groups NewCIDAllocator ! 0 \<noteq> {}" using New_has_000 by auto
  have g0: "groupIndex NewCIDAllocator = 0"
    by (simp add: NewCIDAllocator_def case_prod_beta)
  have "Allocate 0 ord0 NewCIDAllocator =
          (Inr (pick 0 ord0 (groups NewCIDAllocator ! 0)),
           drawn 0 (pick 0 ord0 (groups NewCIDAllocator ! 0)) NewCIDAllocator)"
    unfolding drawn_def
    using cid_invD(1)[OF inv] ne fin g0 by (intro Allocate_draw) simp_all
  then show ?thesis using pick_ord0[OF fin New_has_000] by simp
qed

text \<open>
  Claim C8.  In every allocator reached from \<open>NewCIDAllocator\<close> by \<open>Allocate\<close> and
  \<open>Release\<close> calls: a code that \<open>Allocate\<close> returns was not allocated before the call
  and is allocated after it, and releasing it and allocating again with the same random
  draw returns the same code; a failing \<open>Allocate\<close> returns the no-more-CIDs error and
  leaves the partitions and the allocated set as they were; \<open>Allocate\<close> fails exactly
  when all seven partitions are empty; \<open>Release\<close> of an allocated code never panics,
  puts the code back into the partition \<open>generateCIDGroups\<close> put it in, removes it from
  the allocated set and moves \<open>groupIndex\<close> back to that partition when it is earlier
  than the current one.
\<close>
theorem CIDAllocator_allocate_release:
  assumes "reach c" and "go_range ord"
  shows "(case Allocate r ord c of
            (Inr cid, c1) \<Rightarrow>
               cid \<notin> allocated c \<and> allocated c1 = insert cid (allocated c) \<and>
               (\<exists>c2. Release cid c1 = Inr c2 \<and> fst (Allocate r ord c2) = Inr cid)
          | (Inl e, c1) \<Rightarrow>
               e = NoMoreCIDs \<and> allocated c1 = allocated c \<and> groups c1 = groups c)
       \<and> ((\<exists>e. fst (Allocate r ord c) = Inl e) \<longleftrightarrow> (\<forall>i<7. groups c ! i = {}))
       \<and> length (groups c) = 7
       \<and> (\<forall>cid\<in>allocated c. \<exists>idx<7. cid \<in> fst generateCIDGroups ! idx \<and>
             Release cid c = Inr (released idx cid c))"
proof -
  have inv: "cid_inv c" using assms(1) by (rule reach_inv)
  have len: "length (groups c) = 7" by (rule cid_invD(1)[OF inv])
  have rel: "\<forall>cid\<in>allocated c. \<exists>idx<7. cid \<in> fst generateCIDGroups ! idx \<and>
             Release cid c = Inr (released idx cid c)"
  proof
    fix cid assume "cid \<in> allocated c"
    from Release_spec[OF inv this] obtain idx where
      i: "idx < 7" "cidGroup c cid = Some idx" "Release cid c = Inr (released idx cid c)" by blast
    then show "\<exists>idx<7. cid \<in> fst generateCIDGroups ! idx \<and>
             Release cid c = Inr (released idx cid c)"
      using original_partition[OF inv i(2)] by blast
  qed
  from Allocate_spec[OF inv assms(2), of r]
  have al: "(case Allocate r ord c of
            (Inr cid, c1) \<Rightarrow>
               cid \<notin> allocated c \<and> allocated c1 = insert cid (allocated c) \<and>
               (\<exists>c2. Release cid c1 = Inr c2 \<and> fst (Allocate r ord c2) = Inr cid)
          | (Inl e, c1) \<Rightarrow>
               e = NoMoreCIDs \<and> allocated c1 = allocated c \<and> groups c1 = groups c)
       \<and> ((\<exists>e. fst (Allocate r ord c) = Inl e) \<longleftrightarrow> (\<forall>i<7. groups c ! i = {}))"
  proof (elim disjE conjE exE)
    fix k assume e: "\<forall>i<7. groups c ! i = {}"
      and A: "Allocate r ord c = (Inl NoMoreCIDs, c\<lparr>groupIndex := k\<rparr>)"
    show ?thesis using e by (simp add: A)
  next
    fix i assume i: "i < 7" "pick r ord (groups c ! i) \<in> groups c ! i"
      and A: "Allocate r ord c =
                (Inr (pick r ord (groups c ! i)), drawn i (pick r ord (groups c ! i)) c)"
    let ?cid = "pick r ord (groups c ! i)"
    have na: "?cid \<notin> allocated c" by (rule cid_invD(5)[OF inv i])
    have ne: "\<not> (\<forall>i<7. groups c ! i = {})" using i by blast
    have "\<exists>c2. Release ?cid (drawn i ?cid c) = Inr c2 \<and> fst (Allocate r ord c2) = Inr ?cid"
      using alloc_release_alloc[OF inv i refl] by blast
    then show ?thesis using na ne by (simp add: A drawn_def)
  qed
  show ?thesis
    by (rule conjI[OF conjunct1[OF al] conjI[OF conjunct2[OF al] conjI[OF len rel]]])
qed

text \<open>The fresh allocator, drawing with random number 0 and a key order that starts
  with \<open>000\<close>: the call hands out \<open>000\<close>; released and drawn again, \<open>000\<close> comes back.\<close>
theorem CIDAllocator_allocate_release_witness:
  "reach NewCIDAllocator \<and> go_range ord0 \<and>
   Allocate 0 ord0 NewCIDAllocator = (Inr ''000'', drawn 0 ''000'' NewCIDAllocator) \<and>
   ''000'' \<notin> allocated NewCIDAllocator \<and>
   (\<exists>c2. Release ''000'' (drawn 0 ''000'' NewCIDAllocator) = Inr c2 \<and>
         fst (Allocate 0 ord0 c2) = Inr ''000'') \<and>
   length (groups NewCIDAllocator) = 7"
  using CIDAllocator_allocate_release[OF reach.init go_range_ord0, of 0]
  by (simp add: Allocate_New reach.init go_range_ord0)

text \<open>
  Claim C10.  For every allocator state (reachable or not) and every code that is not in
  the allocated set, \<open>Release\<close> returns with the allocator unchanged; in particular a
  second \<open>Release\<close> of the same code changes nothing, whatever the first one did.
\<close>
theorem Release_unallocated_unchanged:
  "(cid \<notin> allocated c \<longrightarrow> Release cid c = Inr c) \<and>
   (\<forall>c'. Release cid c = Inr c' \<longrightarrow> Release cid c' = Inr c')"
proof (intro conjI allI impI)
  show "Release cid c = Inr c" if "cid \<notin> allocated c" using that by (rule Release_noop)
next
  fix c' assume r: "Release cid c = Inr c'"
  have "cid \<notin> allocated c'"
    using r by (auto simp: Release_def Let_def split: if_splits option.splits)
  then show "Release cid c' = Inr c'" by (rule Release_noop)
qed

text \<open>A small allocator: releasing the free code \<open>001\<close> is a no-op; releasing the
  allocated code \<open>002\<close> puts it back once, and releasing it again changes nothing.\<close>
theorem Release_unallocated_unchanged_witness:
  "''001'' \<notin> allocated tinyAllocator \<and> Release ''001'' tinyAllocator = Inr tinyAllocator \<and>
   Release ''002'' tinyAllocator =
       Inr (tinyAllocator\<lparr>allocated := {''00P''}, groups := [{''002'', ''001''}, {}], groupIndex := 0\<rparr>) \<and>
   Release ''002'' (tinyAllocator\<lparr>allocated := {''00P''}, groups := [{''002'', ''001''}, {}], groupIndex := 0\<rparr>) =
       Inr (tinyAllocator\<lparr>allocated := {''00P''}, groups := [{''002'', ''001''}, {}], groupIndex := 0\<rparr>)"
proof -
  have 1: "''001'' \<notin> allocated tinyAllocator" by (simp add: tinyAllocator_def)
  have 2: "Release ''002'' tinyAllocator =
       Inr (tinyAllocator\<lparr>allocated := {''00P''}, groups := [{''002'', ''001''}, {}], groupIndex := 0\<rparr>)"
    by (simp add: tinyAllocator_def Release_def Let_def insert_Diff_if)
  show ?thesis
    using Release_unallocated_unchanged[of "''001''" tinyAllocator]
          Release_unallocated_unchanged[of "''002''" tinyAllocator] 1 2
    by simp
qed

subsection \<open>Sim: the tick, sign-off and the update loop\<close>

lemma frame_refl: "frame s s"
  by (simp add: frame_def)

lemma frame_trans: "frame s s1 \<Longrightarrow> frame s1 s2 \<Longrightarrow> frame s s2"
  unfolding frame_def by (elim conjE exE, intro conjI) auto

lemma frame_fold:
  assumes "\<And>x s. frame s (f x s)"
  shows "frame s (fold f xs s)"
proof (induction xs arbitrary: s)
  case Nil show ?case by (simp add: frame_refl)
next
  case (Cons x xs)
  have "frame s (f x s)" by (rule assms)
  moreover have "frame (f x s) (fold f xs (f x s))" by (rule Cons.IH)
  ultimately show ?case by (simp add: frame_trans)
qed

lemma map_of_delete_key_other: "c \<noteq> k \<Longrightarrow> map_of (delete_key k m) c = map_of m c"
  by (induction m) (auto simp: delete_key_def)

lemma map_of_delete_key_same: "map_of (delete_key k m) k = None"
  by (induction m) (auto simp: delete_key_def)

lemma pointOutStep_frame: "frame s (pointOutStep now x s)"
  by (cases x) (simp add: pointOutStep_def frame_def Post_def Let_def split: option.split)

lemma pointOutStep_State: "State (pointOutStep now x s) = State s"
  by (cases x) (simp add: pointOutStep_def Post_def Let_def split: option.split)

lemma pointOutStep_Handoffs: "Handoffs (pointOutStep now x s) = Handoffs s"
  by (cases x) (simp add: pointOutStep_def Post_def Let_def split: option.split)

lemma pointOutStep_other:
  "c \<noteq> fst x \<Longrightarrow> map_of (PointOuts (pointOutStep now x s)) c = map_of (PointOuts s) c"
  by (cases x)
     (simp add: pointOutStep_def Post_def Let_def map_of_delete_key_other split: option.split)

lemma handoffStep_frame: "frame s (handoffStep now x s)"
  by (cases x)
     (simp add: handoffStep_def frame_def Post_def Let_def isActiveHumanController_def
           split: option.split)

lemma handoffStep_PointOuts: "PointOuts (handoffStep now x s) = PointOuts s"
  by (cases x) (simp add: handoffStep_def Post_def Let_def split: option.split)

lemma handoffStep_other:
  "c \<noteq> fst x \<Longrightarrow> map_of (Handoffs (handoffStep now x s)) c = map_of (Handoffs s) c \<and>
                  Aircraft (State (handoffStep now x s)) c = Aircraft (State s) c"
  by (cases x)
     (simp add: handoffStep_def Post_def Let_def map_of_delete_key_other split: option.split)

lemma fold_pointOut_State: "State (fold (pointOutStep now) xs s) = State s"
  by (induction xs arbitrary: s) (simp_all add: pointOutStep_State)

lemma fold_pointOut_Handoffs: "Handoffs (fold (pointOutStep now) xs s) = Handoffs s"
  by (induction xs arbitrary: s) (simp_all add: pointOutStep_Handoffs)

lemma fold_pointOut_other:
  "c \<notin> fst ` set xs \<Longrightarrow>
     map_of (PointOuts (fold (pointOutStep now) xs s)) c = map_of (PointOuts s) c"
  by (induction xs arbitrary: s) (simp_all add: pointOutStep_other)

lemma fold_handoff_PointOuts: "PointOuts (fold (handoffStep now) xs s) = PointOuts s"
  by (induction xs arbitrary: s) (simp_all add: handoffStep_PointOuts)

lemma fold_handoff_other:
  "c \<notin> fst ` set xs \<Longrightarrow>
     map_of (Handoffs (fold (handoffStep now) xs s)) c = map_of (Handoffs s) c \<and>
     Aircraft (State (fold (handoffStep now) xs s)) c = Aircraft (State s) c"
  by (induction xs arbitrary: s) (simp_all add: handoffStep_other)

lemma resolveHandoffs_frame: "frame s (resolveHandoffs s)"
  unfolding resolveHandoffs_def by (rule frame_fold) (rule handoffStep_frame)

lemma resolvePointOuts_frame: "frame s (resolvePointOuts now s)"
  unfolding resolvePointOuts_def by (rule frame_fold) (rule pointOutStep_frame)

lemma split_entry:
  assumes "distinct (map fst m)" "(c, v) \<in> set m"
  shows "\<exists>pre post. m = pre @ (c, v) # post \<and> c \<notin> fst ` set pre \<and> c \<notin> fst ` set post"
proof -
  from assms(2) obtain pre post where m: "m = pre @ (c, v) # post"
    by (auto simp: in_set_conv_decomp)
  have "c \<notin> fst ` set pre" "c \<notin> fst ` set post"
    using assms(1) by (auto simp: m)
  then show ?thesis using m by blast
qed

lemma frameD:
  assumes "frame s s'"
  shows "humanControllers s' = humanControllers s" "prespawn s' = prespawn s"
    "SimTime (State s') = SimTime (State s)"
    "\<And>k. map_option Callsign (Aircraft (State s') k) = map_option Callsign (Aircraft (State s) k)"
    "\<exists>es. eventStream s' = eventStream s @ es"
  using assms unfolding frame_def by blast+

lemma pointOutStep_due:
  assumes "AcceptTime po < now" "ToController po \<notin> humanControllers s"
    "Aircraft (State s) c = Some ac"
  shows "pointOutStep now (c, po) s =
           s\<lparr>eventStream := eventStream s @
                  [\<lparr>Type = AcknowledgedPointOutEvent, Message = [],
                    EvFromController = ToController po, EvToController = FromController po,
                    EvCallsign = Callsign ac\<rparr>],
             PointOuts := delete_key c (PointOuts s)\<rparr>"
  using assms by (simp add: pointOutStep_def isActiveHumanController_def Post_def)

lemma pointOutStep_not_due:
  assumes "\<not> AcceptTime po < now \<or> ToController po \<in> humanControllers s \<or>
           Aircraft (State s) c = None"
  shows "pointOutStep now (c, po) s = s"
  using assms by (auto simp: pointOutStep_def isActiveHumanController_def split: option.split)

lemma pointOut_fold_entry:
  assumes "c \<notin> fst ` set pre" "c \<notin> fst ` set post"
  shows "AcceptTime po < now \<and> ToController po \<notin> humanControllers s \<and>
           Aircraft (State s) c = Some ac \<longrightarrow>
         map_of (PointOuts (fold (pointOutStep now) (pre @ (c, po) # post) s)) c = None \<and>
         (\<exists>es. eventStream (fold (pointOutStep now) (pre @ (c, po) # post) s) = eventStream s @ es \<and>
            \<lparr>Type = AcknowledgedPointOutEvent, Message = [],
             EvFromController = ToController po, EvToController = FromController po,
             EvCallsign = Callsign ac\<rparr> \<in> set es)"
    and "\<not> AcceptTime po < now \<or> ToController po \<in> humanControllers s \<or>
           Aircraft (State s) c = None \<longrightarrow>
         map_of (PointOuts (fold (pointOutStep now) (pre @ (c, po) # post) s)) c
           = map_of (PointOuts s) c"
proof -
  let ?sa = "fold (pointOutStep now) pre s"
  let ?sb = "pointOutStep now (c, po) ?sa"
  let ?sc = "fold (pointOutStep now) post ?sb"
  let ?ev = "\<lparr>Type = AcknowledgedPointOutEvent, Message = [],
             EvFromController = ToController po, EvToController = FromController po,
             EvCallsign = Callsign ac\<rparr>"
  have sc: "fold (pointOutStep now) (pre @ (c, po) # post) s = ?sc" by simp
  have fa: "frame s ?sa" by (rule frame_fold) (rule pointOutStep_frame)
  have fc: "frame ?sb ?sc" by (rule frame_fold) (rule pointOutStep_frame)
  have Sa: "State ?sa = State s" by (rule fold_pointOut_State)
  have ha: "humanControllers ?sa = humanControllers s" by (rule frameD(1)[OF fa])
  have pa: "map_of (PointOuts ?sa) c = map_of (PointOuts s) c"
    by (rule fold_pointOut_other[OF assms(1)])
  have pc: "map_of (PointOuts ?sc) c = map_of (PointOuts ?sb) c"
    by (rule fold_pointOut_other[OF assms(2)])
  obtain e1 where e1: "eventStream ?sa = eventStream s @ e1" using frameD(5)[OF fa] by blast
  obtain e3 where e3: "eventStream ?sc = eventStream ?sb @ e3" using frameD(5)[OF fc] by blast
  show "AcceptTime po < now \<and> ToController po \<notin> humanControllers s \<and>
           Aircraft (State s) c = Some ac \<longrightarrow>
         map_of (PointOuts (fold (pointOutStep now) (pre @ (c, po) # post) s)) c = None \<and>
         (\<exists>es. eventStream (fold (pointOutStep now) (pre @ (c, po) # post) s) = eventStream s @ es \<and>
            ?ev \<in> set es)"
  proof (intro impI, elim conjE)
    assume due: "AcceptTime po < now" "ToController po \<notin> humanControllers s"
      "Aircraft (State s) c = Some ac"
    have sb: "?sb = ?sa\<lparr>eventStream := eventStream ?sa @ [?ev],
                         PointOuts := delete_key c (PointOuts ?sa)\<rparr>"
      using due by (intro pointOutStep_due) (simp_all add: Sa ha)
    have "map_of (PointOuts ?sb) c = None"
      by (subst sb) (simp add: map_of_delete_key_same)
    then have 1: "map_of (PointOuts ?sc) c = None" using pc by simp
    have "eventStream ?sb = eventStream s @ e1 @ [?ev]"
      by (subst sb) (simp add: e1)
    then have "eventStream ?sc = eventStream s @ (e1 @ [?ev] @ e3)" using e3 by simp
    moreover have "?ev \<in> set (e1 @ [?ev] @ e3)" by simp
    ultimately have 2: "\<exists>es. eventStream ?sc = eventStream s @ es \<and> ?ev \<in> set es" by blast
    show "map_of (PointOuts (fold (pointOutStep now) (pre @ (c, po) # post) s)) c = None \<and>
         (\<exists>es. eventStream (fold (pointOutStep now) (pre @ (c, po) # post) s) = eventStream s @ es \<and>
            ?ev \<in> set es)"
      unfolding sc using 1 2 by (rule conjI)
  qed
  show "\<not> AcceptTime po < now \<or> ToController po \<in> humanControllers s \<or>
           Aircraft (State s) c = None \<longrightarrow>
         map_of (PointOuts (fold (pointOutStep now) (pre @ (c, po) # post) s)) c
           = map_of (PointOuts s) c"
  proof
    assume "\<not> AcceptTime po < now \<or> ToController po \<in> humanControllers s \<or>
           Aircraft (State s) c = None"
    then have "?sb = ?sa"
      by (intro pointOutStep_not_due) (simp add: Sa ha)
    then show "map_of (PointOuts (fold (pointOutStep now) (pre @ (c, po) # post) s)) c
           = map_of (PointOuts s) c"
      unfolding sc using pc pa by simp
  qed
qed

text \<open>
  Claim C9, as amended.  Take any point-out recorded in \<open>PointOuts\<close> at the start of a
  tick (the keys of \<open>PointOuts\<close> being distinct, as the keys of a map are).  If its accept
  deadline has passed, its recipient is not an active human and its aircraft is in
  \<open>State.Aircraft\<close>, then the two loops at the head of the tick remove the entry and
  post an \<open>AcknowledgedPointOutEvent\<close> whose sender is the point-out's recipient and
  whose receiver is the point-out's sender, with the aircraft's callsign.
\<close>
theorem pointout_auto_acknowledge:
  assumes "distinct (map fst (PointOuts s))" and "(callsign, po) \<in> set (PointOuts s)"
    and "AcceptTime po < SimTime (State s)"
    and "\<not> isActiveHumanController (ToController po) s"
    and "Aircraft (State s) callsign = Some ac"
  shows "map_of (PointOuts (resolveTimers s)) callsign = None \<and>
         (\<exists>es. eventStream (resolveTimers s) = eventStream s @ es \<and>
            \<lparr>Type = AcknowledgedPointOutEvent, Message = [],
             EvFromController = ToController po, EvToController = FromController po,
             EvCallsign = Callsign ac\<rparr> \<in> set es)"
proof -
  let ?now = "SimTime (State s)"
  let ?sh = "resolveHandoffs s"
  let ?ev = "\<lparr>Type = AcknowledgedPointOutEvent, Message = [],
              EvFromController = ToController po, EvToController = FromController po,
              EvCallsign = Callsign ac\<rparr>"
  have fh: "frame s ?sh" by (rule resolveHandoffs_frame)
  have ph: "PointOuts ?sh = PointOuts s"
    unfolding resolveHandoffs_def by (rule fold_handoff_PointOuts)
  have hh: "humanControllers ?sh = humanControllers s" by (rule frameD(1)[OF fh])
  have ch: "map_option Callsign (Aircraft (State ?sh) callsign)
              = map_option Callsign (Aircraft (State s) callsign)" by (rule frameD(4)[OF fh])
  obtain eh where eh: "eventStream ?sh = eventStream s @ eh" using frameD(5)[OF fh] by blast
  from split_entry[OF assms(1,2)] obtain pre post where
    m: "PointOuts s = pre @ (callsign, po) # post"
    and npre: "callsign \<notin> fst ` set pre" and npost: "callsign \<notin> fst ` set post" by blast
  have rt: "resolveTimers s = fold (pointOutStep ?now) (pre @ (callsign, po) # post) ?sh"
    by (simp add: resolveTimers_def resolvePointOuts_def ph m)
  have "map_option Callsign (Aircraft (State ?sh) callsign) = Some (Callsign ac)"
    using ch assms(5) by simp
  then obtain ac' where ac': "Aircraft (State ?sh) callsign = Some ac'" "Callsign ac' = Callsign ac"
    unfolding map_option_eq_Some by (elim exE conjE)
  have d: "AcceptTime po < ?now \<and> ToController po \<notin> humanControllers ?sh \<and>
         Aircraft (State ?sh) callsign = Some ac'"
    using assms(3,4) ac' hh by (simp add: isActiveHumanController_def)
  note fe = pointOut_fold_entry(1)[OF npre npost, of po ?now ?sh ac', folded rt, unfolded ac'(2),
               rule_format, OF d]
  have r: "map_of (PointOuts (resolveTimers s)) callsign = None" by (rule conjunct1[OF fe])
  obtain es where es: "eventStream (resolveTimers s) = eventStream ?sh @ es" "?ev \<in> set es"
    using conjunct2[OF fe] by (elim exE conjE)
  have "eventStream (resolveTimers s) = eventStream s @ (eh @ es)" by (simp add: es(1) eh)
  moreover have "?ev \<in> set (eh @ es)" using es(2) by simp
  ultimately have "\<exists>es. eventStream (resolveTimers s) = eventStream s @ es \<and> ?ev \<in> set es"
    by (intro exI conjI)
  with r show ?thesis by (rule conjI)
qed

lemma handoffStep_not_due:
  assumes "\<not> AutoAcceptTime ho < now" "\<not> prespawn s"
  shows "handoffStep now (c, ho) s = s"
  using assms by (simp add: handoffStep_def)

lemma handoffStep_accept:
  assumes "AutoAcceptTime ho < now \<or> prespawn s" "Aircraft (State s) c = Some ac"
    "HandoffTrackController ac \<noteq> []" "HandoffTrackController ac \<notin> humanControllers s"
  shows "handoffStep now (c, ho) s =
           s\<lparr>eventStream := eventStream s @
                  [\<lparr>Type = AcceptedHandoffEvent, Message = [],
                    EvFromController = TrackingController ac,
                    EvToController = HandoffTrackController ac,
                    EvCallsign = Callsign ac\<rparr>],
             State := (State s)\<lparr>Aircraft := (Aircraft (State s))(c \<mapsto>
                        ac\<lparr>TrackingController := HandoffTrackController ac,
                           HandoffTrackController := []\<rparr>)\<rparr>,
             Handoffs := delete_key c (Handoffs s)\<rparr>"
  using assms by (auto simp: handoffStep_def isActiveHumanController_def Post_def Let_def)

lemma handoffStep_keep:
  assumes "AutoAcceptTime ho < now \<or> prespawn s"
    "Aircraft (State s) c = None \<or>
     (\<exists>ac. Aircraft (State s) c = Some ac \<and>
        (HandoffTrackController ac = [] \<or> HandoffTrackController ac \<in> humanControllers s))"
  shows "handoffStep now (c, ho) s = s\<lparr>Handoffs := delete_key c (Handoffs s)\<rparr>"
  using assms
  by (auto simp: handoffStep_def isActiveHumanController_def Post_def Let_def split: option.split)

lemma handoff_fold_entry:
  fixes now :: time and ho :: Handoff and s :: Sim and ac :: Aircraft
  assumes "c \<notin> fst ` set pre" "c \<notin> fst ` set post"
  defines "s' \<equiv> fold (handoffStep now) (pre @ (c, ho) # post) s"
  shows "\<not> AutoAcceptTime ho < now \<and> \<not> prespawn s \<longrightarrow>
           map_of (Handoffs s') c = map_of (Handoffs s) c \<and>
           Aircraft (State s') c = Aircraft (State s) c"
    and "AutoAcceptTime ho < now \<or> prespawn s \<longrightarrow> map_of (Handoffs s') c = None"
    and "(AutoAcceptTime ho < now \<or> prespawn s) \<and> Aircraft (State s) c = Some ac \<and>
           HandoffTrackController ac \<noteq> [] \<and> HandoffTrackController ac \<notin> humanControllers s \<longrightarrow>
         Aircraft (State s') c = Some (ac\<lparr>TrackingController := HandoffTrackController ac,
                                           HandoffTrackController := []\<rparr>) \<and>
         (\<exists>es. eventStream s' = eventStream s @ es \<and>
            \<lparr>Type = AcceptedHandoffEvent, Message = [],
             EvFromController = TrackingController ac,
             EvToController = HandoffTrackController ac,
             EvCallsign = Callsign ac\<rparr> \<in> set es)"
    and "Aircraft (State s) c = None \<or>
         (\<exists>ac. Aircraft (State s) c = Some ac \<and>
           (HandoffTrackController ac = [] \<or> HandoffTrackController ac \<in> humanControllers s)) \<longrightarrow>
         Aircraft (State s') c = Aircraft (State s) c"
proof -
  let ?sa = "fold (handoffStep now) pre s"
  let ?sb = "handoffStep now (c, ho) ?sa"
  let ?sc = "fold (handoffStep now) post ?sb"
  let ?ev = "\<lparr>Type = AcceptedHandoffEvent, Message = [],
             EvFromController = TrackingController ac,
             EvToController = HandoffTrackController ac,
             EvCallsign = Callsign ac\<rparr>"
  have sc: "s' = ?sc" by (simp add: s'_def)
  have fa: "frame s ?sa" by (rule frame_fold) (rule handoffStep_frame)
  have fc: "frame ?sb ?sc" by (rule frame_fold) (rule handoffStep_frame)
  have ha: "humanControllers ?sa = humanControllers s" by (rule frameD(1)[OF fa])
  have pa: "prespawn ?sa = prespawn s" by (rule frameD(2)[OF fa])
  have oa: "map_of (Handoffs ?sa) c = map_of (Handoffs s) c"
    and aa: "Aircraft (State ?sa) c = Aircraft (State s) c"
    using fold_handoff_other[OF assms(1), of now s] by simp_all
  have oc: "map_of (Handoffs ?sc) c = map_of (Handoffs ?sb) c"
    and ac: "Aircraft (State ?sc) c = Aircraft (State ?sb) c"
    using fold_handoff_other[OF assms(2), of now ?sb] by simp_all
  obtain e1 where e1: "eventStream ?sa = eventStream s @ e1" using frameD(5)[OF fa] by blast
  obtain e3 where e3: "eventStream ?sc = eventStream ?sb @ e3" using frameD(5)[OF fc] by blast
  show "\<not> AutoAcceptTime ho < now \<and> \<not> prespawn s \<longrightarrow>
           map_of (Handoffs s') c = map_of (Handoffs s) c \<and>
           Aircraft (State s') c = Aircraft (State s) c"
  proof
    assume "\<not> AutoAcceptTime ho < now \<and> \<not> prespawn s"
    then have "?sb = ?sa" by (intro handoffStep_not_due) (simp_all add: pa)
    then show "map_of (Handoffs s') c = map_of (Handoffs s) c \<and>
           Aircraft (State s') c = Aircraft (State s) c"
      unfolding sc using oa aa oc ac by simp
  qed
  have del: "AutoAcceptTime ho < now \<or> prespawn s \<Longrightarrow>
               Handoffs ?sb = delete_key c (Handoffs ?sa)"
  proof -
    assume d: "AutoAcceptTime ho < now \<or> prespawn s"
    then have d': "AutoAcceptTime ho < now \<or> prespawn ?sa" by (simp add: pa)
    show "Handoffs ?sb = delete_key c (Handoffs ?sa)"
    proof (cases "\<exists>a. Aircraft (State ?sa) c = Some a \<and> HandoffTrackController a \<noteq> [] \<and>
                     HandoffTrackController a \<notin> humanControllers ?sa")
      case True
      then obtain a where a: "Aircraft (State ?sa) c = Some a" "HandoffTrackController a \<noteq> []"
        "HandoffTrackController a \<notin> humanControllers ?sa" by (elim exE conjE)
      show ?thesis by (subst handoffStep_accept[OF d' a]) simp
    next
      case False
      then have "Aircraft (State ?sa) c = None \<or>
         (\<exists>a. Aircraft (State ?sa) c = Some a \<and>
           (HandoffTrackController a = [] \<or> HandoffTrackController a \<in> humanControllers ?sa))"
        by (cases "Aircraft (State ?sa) c") simp_all
      then show ?thesis by (subst handoffStep_keep[OF d']) simp_all
    qed
  qed
  show "AutoAcceptTime ho < now \<or> prespawn s \<longrightarrow> map_of (Handoffs s') c = None"
  proof
    assume "AutoAcceptTime ho < now \<or> prespawn s"
    then have "map_of (Handoffs ?sb) c = None" by (simp add: del map_of_delete_key_same)
    then show "map_of (Handoffs s') c = None" unfolding sc using oc by simp
  qed
  show "(AutoAcceptTime ho < now \<or> prespawn s) \<and> Aircraft (State s) c = Some ac \<and>
           HandoffTrackController ac \<noteq> [] \<and> HandoffTrackController ac \<notin> humanControllers s \<longrightarrow>
         Aircraft (State s') c = Some (ac\<lparr>TrackingController := HandoffTrackController ac,
                                           HandoffTrackController := []\<rparr>) \<and>
         (\<exists>es. eventStream s' = eventStream s @ es \<and> ?ev \<in> set es)"
  proof (rule impI, elim conjE)
    assume d: "AutoAcceptTime ho < now \<or> prespawn s" and a: "Aircraft (State s) c = Some ac"
      "HandoffTrackController ac \<noteq> []" "HandoffTrackController ac \<notin> humanControllers s"
    have d': "AutoAcceptTime ho < now \<or> prespawn ?sa" using d by (simp add: pa)
    have a': "Aircraft (State ?sa) c = Some ac" "HandoffTrackController ac \<notin> humanControllers ?sa"
      using a by (simp_all add: aa ha)
    note sb = handoffStep_accept[OF d' a'(1) a(2) a'(2)]
    have 1: "Aircraft (State ?sb) c = Some (ac\<lparr>TrackingController := HandoffTrackController ac,
                                           HandoffTrackController := []\<rparr>)"
      by (subst sb) simp
    have "eventStream ?sb = eventStream s @ e1 @ [?ev]" by (subst sb) (simp add: e1)
    then have "eventStream ?sc = eventStream s @ (e1 @ [?ev] @ e3)" using e3 by simp
    moreover have "?ev \<in> set (e1 @ [?ev] @ e3)" by simp
    ultimately have 2: "\<exists>es. eventStream s' = eventStream s @ es \<and> ?ev \<in> set es"
      unfolding sc by (intro exI conjI)
    have "Aircraft (State s') c = Some (ac\<lparr>TrackingController := HandoffTrackController ac,
                                           HandoffTrackController := []\<rparr>)"
      unfolding sc using 1 ac by simp
    then show "Aircraft (State s') c = Some (ac\<lparr>TrackingController := HandoffTrackController ac,
                                           HandoffTrackController := []\<rparr>) \<and>
         (\<exists>es. eventStream s' = eventStream s @ es \<and> ?ev \<in> set es)"
      using 2 by (rule conjI)
  qed
  show "Aircraft (State s) c = None \<or>
         (\<exists>ac. Aircraft (State s) c = Some ac \<and>
           (HandoffTrackController ac = [] \<or> HandoffTrackController ac \<in> humanControllers s)) \<longrightarrow>
         Aircraft (State s') c = Aircraft (State s) c"
  proof
    assume k: "Aircraft (State s) c = None \<or>
         (\<exists>ac. Aircraft (State s) c = Some ac \<and>
           (HandoffTrackController ac = [] \<or> HandoffTrackController ac \<in> humanControllers s))"
    then have k': "Aircraft (State ?sa) c = None \<or>
         (\<exists>ac. Aircraft (State ?sa) c = Some ac \<and>
           (HandoffTrackController ac = [] \<or> HandoffTrackController ac \<in> humanControllers ?sa))"
      by (simp add: aa ha)
    have "Aircraft (State ?sb) c = Aircraft (State ?sa) c"
    proof (cases "AutoAcceptTime ho < now \<or> prespawn ?sa")
      case True
      show ?thesis by (subst handoffStep_keep[OF True k']) simp
    next
      case False
      then show ?thesis by (subst handoffStep_not_due) simp_all
    qed
    then show "Aircraft (State s') c = Aircraft (State s) c"
      unfolding sc using ac aa by simp
  qed
qed

lemma updateState_resolveTimers:
  "updateState advance s =
     (if SimTime (State s) - lastSimUpdate s \<ge> Second
      then advance ((resolveTimers s)\<lparr>lastSimUpdate := SimTime (State s)\<rparr>)
      else resolveTimers s)"
proof -
  have "frame s (resolveTimers s)"
    unfolding resolveTimers_def
    by (rule frame_trans[OF resolveHandoffs_frame resolvePointOuts_frame])
  then have "lastSimUpdate (resolveTimers s) = lastSimUpdate s" by (simp add: frame_def)
  then show ?thesis by (simp add: updateState_def Let_def resolveTimers_def)
qed

lemma resolvePointOuts_State: "State (resolvePointOuts now s) = State s"
  unfolding resolvePointOuts_def by (rule fold_pointOut_State)

lemma resolvePointOuts_Handoffs: "Handoffs (resolvePointOuts now s) = Handoffs s"
  unfolding resolvePointOuts_def by (rule fold_pointOut_Handoffs)

text \<open>
  Claim C2, as amended.  Take any handoff recorded in \<open>Handoffs\<close> at the start of a tick
  outside prespawn mode, with deadline \<open>D\<close>.  While simulated time is not later than \<open>D\<close>,
  the tick leaves the entry and the aircraft alone.  Once simulated time is later than
  \<open>D\<close>, the tick removes the entry in all cases; if the aircraft is in the sim, has a
  pending handoff target and that position is not an active human, the aircraft's
  tracking controller becomes the handoff target, the pending target is cleared and an
  \<open>AcceptedHandoffEvent\<close> from the old tracking controller to the target is posted;
  if the target is an active human, the aircraft is left as it is.
\<close>
theorem handoff_auto_accept:
  assumes "distinct (map fst (Handoffs s))" and "(callsign, ho) \<in> set (Handoffs s)"
    and "\<not> prespawn s"
  shows "(\<not> AutoAcceptTime ho < SimTime (State s) \<longrightarrow>
            map_of (Handoffs (resolveTimers s)) callsign = Some ho \<and>
            Aircraft (State (resolveTimers s)) callsign = Aircraft (State s) callsign) \<and>
         (AutoAcceptTime ho < SimTime (State s) \<longrightarrow>
            map_of (Handoffs (resolveTimers s)) callsign = None \<and>
            (Aircraft (State s) callsign = Some ac \<and> HandoffTrackController ac \<noteq> [] \<and>
               \<not> isActiveHumanController (HandoffTrackController ac) s \<longrightarrow>
             Aircraft (State (resolveTimers s)) callsign =
               Some (ac\<lparr>TrackingController := HandoffTrackController ac,
                        HandoffTrackController := []\<rparr>) \<and>
             (\<exists>es. eventStream (resolveTimers s) = eventStream s @ es \<and>
                \<lparr>Type = AcceptedHandoffEvent, Message = [],
                 EvFromController = TrackingController ac,
                 EvToController = HandoffTrackController ac,
                 EvCallsign = Callsign ac\<rparr> \<in> set es)) \<and>
            (Aircraft (State s) callsign = Some ac \<and>
               isActiveHumanController (HandoffTrackController ac) s \<longrightarrow>
             Aircraft (State (resolveTimers s)) callsign = Some ac))"
proof -
  let ?now = "SimTime (State s)"
  let ?sh = "resolveHandoffs s"
  let ?ev = "\<lparr>Type = AcceptedHandoffEvent, Message = [],
                 EvFromController = TrackingController ac,
                 EvToController = HandoffTrackController ac,
                 EvCallsign = Callsign ac\<rparr>"
  from split_entry[OF assms(1,2)] obtain pre post where
    m: "Handoffs s = pre @ (callsign, ho) # post"
    and npre: "callsign \<notin> fst ` set pre" and npost: "callsign \<notin> fst ` set post" by blast
  have sh: "?sh = fold (handoffStep ?now) (pre @ (callsign, ho) # post) s"
    by (simp add: resolveHandoffs_def m)
  note fe = handoff_fold_entry[OF npre npost, where now="?now" and ho=ho and s=s, folded sh]
  have St: "State (resolveTimers s) = State ?sh"
    by (simp add: resolveTimers_def resolvePointOuts_State)
  have Ho: "Handoffs (resolveTimers s) = Handoffs ?sh"
    by (simp add: resolveTimers_def resolvePointOuts_Handoffs)
  have "frame ?sh (resolveTimers s)"
    unfolding resolveTimers_def by (rule resolvePointOuts_frame)
  then obtain ep where ep: "eventStream (resolveTimers s) = eventStream ?sh @ ep"
    using frameD(5) by blast
  have orig: "map_of (Handoffs s) callsign = Some ho" using assms(1,2) by simp
  have A: "\<not> AutoAcceptTime ho < ?now \<longrightarrow>
            map_of (Handoffs (resolveTimers s)) callsign = Some ho \<and>
            Aircraft (State (resolveTimers s)) callsign = Aircraft (State s) callsign"
    using fe(1) assms(3) orig unfolding St Ho by simp
  have B1: "AutoAcceptTime ho < ?now \<longrightarrow> map_of (Handoffs (resolveTimers s)) callsign = None"
    using fe(2) unfolding Ho by simp
  have B2: "AutoAcceptTime ho < ?now \<longrightarrow>
            (Aircraft (State s) callsign = Some ac \<and> HandoffTrackController ac \<noteq> [] \<and>
               \<not> isActiveHumanController (HandoffTrackController ac) s \<longrightarrow>
             Aircraft (State (resolveTimers s)) callsign =
               Some (ac\<lparr>TrackingController := HandoffTrackController ac,
                        HandoffTrackController := []\<rparr>) \<and>
             (\<exists>es. eventStream (resolveTimers s) = eventStream s @ es \<and> ?ev \<in> set es))"
  proof (intro impI, elim conjE)
    assume d: "AutoAcceptTime ho < ?now" and a: "Aircraft (State s) callsign = Some ac"
      "HandoffTrackController ac \<noteq> []" "\<not> isActiveHumanController (HandoffTrackController ac) s"
    have pre3: "(AutoAcceptTime ho < ?now \<or> prespawn s) \<and> Aircraft (State s) callsign = Some ac \<and>
           HandoffTrackController ac \<noteq> [] \<and> HandoffTrackController ac \<notin> humanControllers s"
      using d a by (simp add: isActiveHumanController_def)
    note r = fe(3)[where ac=ac, rule_format, OF pre3]
    obtain es where es: "eventStream ?sh = eventStream s @ es" "?ev \<in> set es"
      using conjunct2[OF r] by (elim exE conjE)
    have "eventStream (resolveTimers s) = eventStream s @ (es @ ep)" by (simp add: ep es(1))
    moreover have "?ev \<in> set (es @ ep)" using es(2) by simp
    ultimately have "\<exists>es. eventStream (resolveTimers s) = eventStream s @ es \<and> ?ev \<in> set es"
      by (intro exI conjI)
    moreover have "Aircraft (State (resolveTimers s)) callsign =
               Some (ac\<lparr>TrackingController := HandoffTrackController ac,
                        HandoffTrackController := []\<rparr>)"
      unfolding St by (rule conjunct1[OF r])
    ultimately show "Aircraft (State (resolveTimers s)) callsign =
               Some (ac\<lparr>TrackingController := HandoffTrackController ac,
                        HandoffTrackController := []\<rparr>) \<and>
             (\<exists>es. eventStream (resolveTimers s) = eventStream s @ es \<and> ?ev \<in> set es)"
      by (intro conjI)
  qed
  have B3: "AutoAcceptTime ho < ?now \<longrightarrow>
            (Aircraft (State s) callsign = Some ac \<and>
               isActiveHumanController (HandoffTrackController ac) s \<longrightarrow>
             Aircraft (State (resolveTimers s)) callsign = Some ac)"
  proof (intro impI, elim conjE)
    assume a: "Aircraft (State s) callsign = Some ac"
      "isActiveHumanController (HandoffTrackController ac) s"
    then have "Aircraft (State s) callsign = None \<or>
         (\<exists>ac. Aircraft (State s) callsign = Some ac \<and>
           (HandoffTrackController ac = [] \<or> HandoffTrackController ac \<in> humanControllers s))"
      by (simp add: isActiveHumanController_def)
    from fe(4)[rule_format, OF this] show "Aircraft (State (resolveTimers s)) callsign = Some ac"
      unfolding St using a(1) by simp
  qed
  show ?thesis
  proof (rule conjI)
    show "\<not> AutoAcceptTime ho < ?now \<longrightarrow>
            map_of (Handoffs (resolveTimers s)) callsign = Some ho \<and>
            Aircraft (State (resolveTimers s)) callsign = Aircraft (State s) callsign"
      by (rule A)
  next
    show "AutoAcceptTime ho < ?now \<longrightarrow>
            map_of (Handoffs (resolveTimers s)) callsign = None \<and>
            (Aircraft (State s) callsign = Some ac \<and> HandoffTrackController ac \<noteq> [] \<and>
               \<not> isActiveHumanController (HandoffTrackController ac) s \<longrightarrow>
             Aircraft (State (resolveTimers s)) callsign =
               Some (ac\<lparr>TrackingController := HandoffTrackController ac,
                        HandoffTrackController := []\<rparr>) \<and>
             (\<exists>es. eventStream (resolveTimers s) = eventStream s @ es \<and> ?ev \<in> set es)) \<and>
            (Aircraft (State s) callsign = Some ac \<and>
               isActiveHumanController (HandoffTrackController ac) s \<longrightarrow>
             Aircraft (State (resolveTimers s)) callsign = Some ac)"
    proof (rule impI)
      assume d: "AutoAcceptTime ho < ?now"
      show "map_of (Handoffs (resolveTimers s)) callsign = None \<and>
            (Aircraft (State s) callsign = Some ac \<and> HandoffTrackController ac \<noteq> [] \<and>
               \<not> isActiveHumanController (HandoffTrackController ac) s \<longrightarrow>
             Aircraft (State (resolveTimers s)) callsign =
               Some (ac\<lparr>TrackingController := HandoffTrackController ac,
                        HandoffTrackController := []\<rparr>) \<and>
             (\<exists>es. eventStream (resolveTimers s) = eventStream s @ es \<and> ?ev \<in> set es)) \<and>
            (Aircraft (State s) callsign = Some ac \<and>
               isActiveHumanController (HandoffTrackController ac) s \<longrightarrow>
             Aircraft (State (resolveTimers s)) callsign = Some ac)"
        by (rule conjI[OF mp[OF B1 d] conjI[OF mp[OF B2 d] mp[OF B3 d]]])
    qed
  qed
qed

lemmas example_defs = resolveTimers_def resolveHandoffs_def resolvePointOuts_def handoffStep_def
  pointOutStep_def simH_def sim0_def st0_def at_time_def ac1_def ac2_def Post_def delete_key_def
  isActiveHumanController_def Second_def Let_def tick_def updateState_def

text \<open>The handoff of \<open>N2\<close> with deadline 6 s, seen by the tick at 7 s.\<close>
theorem handoff_auto_accept_witness:
  "distinct (map fst (Handoffs (at_time (7 * Second) simH))) \<and>
   (''N2'', \<lparr>AutoAcceptTime = 6 * Second, ReceivingFacility = []\<rparr>)
       \<in> set (Handoffs (at_time (7 * Second) simH)) \<and>
   \<not> prespawn (at_time (7 * Second) simH) \<and>
   Aircraft (State (at_time (7 * Second) simH)) ''N2'' = Some ac2 \<and>
   \<not> isActiveHumanController (HandoffTrackController ac2) (at_time (7 * Second) simH) \<and>
   map_of (Handoffs (resolveTimers (at_time (7 * Second) simH))) ''N2'' = None \<and>
   Aircraft (State (resolveTimers (at_time (7 * Second) simH))) ''N2'' =
      Some (ac2\<lparr>TrackingController := ''C'', HandoffTrackController := []\<rparr>)"
proof -
  let ?s = "at_time (7 * Second) simH"
  let ?ho = "\<lparr>AutoAcceptTime = 6 * Second, ReceivingFacility = []\<rparr>"
  have h1: "distinct (map fst (Handoffs ?s))" by (simp add: example_defs)
  have h2: "(''N2'', ?ho) \<in> set (Handoffs ?s)" by (simp add: example_defs)
  have h3: "\<not> prespawn ?s" by (simp add: example_defs)
  have h4: "AutoAcceptTime ?ho < SimTime (State ?s)" by (simp add: example_defs)
  have h5: "Aircraft (State ?s) ''N2'' = Some ac2 \<and> HandoffTrackController ac2 \<noteq> [] \<and>
            \<not> isActiveHumanController (HandoffTrackController ac2) ?s"
    by (simp add: example_defs)
  note t = handoff_auto_accept[OF h1 h2 h3, of ac2]
  note t2 = mp[OF conjunct2[OF t] h4]
  have r1: "map_of (Handoffs (resolveTimers ?s)) ''N2'' = None" by (rule conjunct1[OF t2])
  have r2: "Aircraft (State (resolveTimers ?s)) ''N2'' =
              Some (ac2\<lparr>TrackingController := HandoffTrackController ac2,
                        HandoffTrackController := []\<rparr>)"
    by (rule conjunct1[OF mp[OF conjunct1[OF conjunct2[OF t2]] h5]])
  have r2': "Aircraft (State (resolveTimers ?s)) ''N2'' =
              Some (ac2\<lparr>TrackingController := ''C'', HandoffTrackController := []\<rparr>)"
    using r2 by (simp add: ac2_def)
  show ?thesis using h1 h2 h3 h5 r1 r2' by simp
qed

text \<open>
  The claim as stated fails: the one-second tick that brings simulated time from 5 s to
  exactly the deadline of 6 s does not resolve the handoff of \<open>N2\<close>, although the
  receiving position \<open>C\<close> is not an active human.
\<close>
theorem handoff_at_deadline_counterexample:
  "map_of (Handoffs simH) ''N2'' = Some \<lparr>AutoAcceptTime = 6 * Second, ReceivingFacility = []\<rparr> \<and>
   Aircraft (State simH) ''N2'' = Some ac2 \<and> HandoffTrackController ac2 = ''C'' \<and>
   \<not> isActiveHumanController ''C'' simH \<and> \<not> prespawn simH \<and>
   SimTime (State simH) = 5 * Second \<and>
   SimTime (State (tick id simH)) = 6 * Second \<and>
   map_of (Handoffs (tick id simH)) ''N2''
      = Some \<lparr>AutoAcceptTime = 6 * Second, ReceivingFacility = []\<rparr> \<and>
   Aircraft (State (tick id simH)) ''N2'' = Some ac2"
  by (simp add: example_defs)

text \<open>The point-out of \<open>N1\<close> with deadline 5 s, seen by the tick at 6 s.\<close>
theorem pointout_auto_acknowledge_witness:
  "distinct (map fst (PointOuts (at_time (6 * Second) simH))) \<and>
   (''N1'', \<lparr>FromController = ''A'', ToController = ''C'', AcceptTime = 5 * Second\<rparr>)
       \<in> set (PointOuts (at_time (6 * Second) simH)) \<and>
   \<not> isActiveHumanController ''C'' (at_time (6 * Second) simH) \<and>
   Aircraft (State (at_time (6 * Second) simH)) ''N1'' = Some ac1 \<and>
   map_of (PointOuts (resolveTimers (at_time (6 * Second) simH))) ''N1'' = None \<and>
   eventStream (resolveTimers (at_time (6 * Second) simH)) =
     [\<lparr>Type = AcknowledgedPointOutEvent, Message = [], EvFromController = ''C'',
       EvToController = ''A'', EvCallsign = ''N1''\<rparr>]"
proof -
  let ?s = "at_time (6 * Second) simH"
  let ?po = "\<lparr>FromController = ''A'', ToController = ''C'', AcceptTime = 5 * Second\<rparr>"
  have h1: "distinct (map fst (PointOuts ?s))" by (simp add: example_defs)
  have h2: "(''N1'', ?po) \<in> set (PointOuts ?s)" by (simp add: example_defs)
  have h3: "AcceptTime ?po < SimTime (State ?s)" by (simp add: example_defs)
  have h4: "\<not> isActiveHumanController (ToController ?po) ?s" by (simp add: example_defs)
  have h5: "Aircraft (State ?s) ''N1'' = Some ac1" by (simp add: example_defs)
  note t = pointout_auto_acknowledge[OF h1 h2 h3 h4 h5]
  have r1: "map_of (PointOuts (resolveTimers ?s)) ''N1'' = None" by (rule conjunct1[OF t])
  have r2: "eventStream (resolveTimers ?s) =
     [\<lparr>Type = AcknowledgedPointOutEvent, Message = [], EvFromController = ''C'',
       EvToController = ''A'', EvCallsign = ''N1''\<rparr>]"
    by (simp add: example_defs)
  show ?thesis using h1 h2 h3 h4 h5 r1 r2 by simp
qed

text \<open>
  The claim as stated fails: the point-out recorded for \<open>N9\<close> is overdue and its
  recipient \<open>C\<close> is not an active human, but \<open>N9\<close> is not in \<open>State.Aircraft\<close>; the tick
  posts no event for it (the only event is the acknowledgment for \<open>N1\<close>) and keeps
  the entry.
\<close>
theorem pointout_missing_aircraft_counterexample:
  "map_of (PointOuts simH) ''N9''
      = Some \<lparr>FromController = ''B'', ToController = ''C'', AcceptTime = 0\<rparr> \<and>
   \<not> isActiveHumanController ''C'' simH \<and>
   SimTime (State (tick id simH)) = 6 * Second \<and>
   map_of (PointOuts (tick id simH)) ''N9''
      = Some \<lparr>FromController = ''B'', ToController = ''C'', AcceptTime = 0\<rparr> \<and>
   eventStream (tick id simH) =
     [\<lparr>Type = AcknowledgedPointOutEvent, Message = [], EvFromController = ''C'',
       EvToController = ''A'', EvCallsign = ''N1''\<rparr>]"
  by (simp add: example_defs)

lemma SignOff_Inr:
  assumes "tcp \<in> humanControllers s"
  shows "\<exists>s'. SignOff tcp s = Inr s' \<and>
           Aircraft (State s') = (\<lambda>k. map_option
              (HandleControllerDisconnect tcp (PrimaryController (State s))) (Aircraft (State s) k)) \<and>
           Controller (LaunchConfig (State s')) =
              (if tcp = Controller (LaunchConfig (State s)) then [] else Controller (LaunchConfig (State s))) \<and>
           humanControllers s' = humanControllers s - {tcp}"
  using assms by (simp add: SignOff_def Let_def Post_def)

text \<open>
  Claim C5, as amended.  \<open>SignOff\<close> fails exactly when the position is not a signed-on
  human controller, and then with the no-controller error.  When it succeeds, every
  aircraft that was tracked by the position is tracked by the primary controller
  afterwards; so when the position is not the primary controller itself, no aircraft is
  tracked by it afterwards; if the position held launch control, the holder of launch
  control is the empty string afterwards; and the position is no longer a human
  controller.
\<close>
theorem SignOff_transfers_tracks:
  "(SignOff tcp s = Inl ErrNoController \<longleftrightarrow> tcp \<notin> humanControllers s) \<and>
   ((\<exists>e. SignOff tcp s = Inl e) \<longleftrightarrow> tcp \<notin> humanControllers s) \<and>
   (tcp \<in> humanControllers s \<longrightarrow>
      (\<exists>s'. SignOff tcp s = Inr s' \<and>
         (\<forall>k ac. Aircraft (State s) k = Some ac \<and> TrackingController ac = tcp \<longrightarrow>
            (\<exists>ac'. Aircraft (State s') k = Some ac' \<and>
                   TrackingController ac' = PrimaryController (State s))) \<and>
         (tcp \<noteq> PrimaryController (State s) \<longrightarrow>
            (\<forall>k ac'. Aircraft (State s') k = Some ac' \<longrightarrow> TrackingController ac' \<noteq> tcp)) \<and>
         (Controller (LaunchConfig (State s)) = tcp \<longrightarrow> Controller (LaunchConfig (State s')) = []) \<and>
         tcp \<notin> humanControllers s'))"
proof (intro conjI impI)
  show "(SignOff tcp s = Inl ErrNoController) = (tcp \<notin> humanControllers s)"
    by (simp add: SignOff_def Let_def)
  show "(\<exists>e. SignOff tcp s = Inl e) = (tcp \<notin> humanControllers s)"
    by (simp add: SignOff_def Let_def)
next
  assume h: "tcp \<in> humanControllers s"
  from SignOff_Inr[OF h] obtain s' where
    r: "SignOff tcp s = Inr s'"
    and a: "Aircraft (State s') = (\<lambda>k. map_option
              (HandleControllerDisconnect tcp (PrimaryController (State s))) (Aircraft (State s) k))"
    and l: "Controller (LaunchConfig (State s')) =
              (if tcp = Controller (LaunchConfig (State s)) then [] else Controller (LaunchConfig (State s)))"
    and hc: "humanControllers s' = humanControllers s - {tcp}" by blast
  have 1: "\<forall>k ac. Aircraft (State s) k = Some ac \<and> TrackingController ac = tcp \<longrightarrow>
            (\<exists>ac'. Aircraft (State s') k = Some ac' \<and>
                   TrackingController ac' = PrimaryController (State s))"
    by (simp add: a HandleControllerDisconnect_def)
  have 2: "tcp \<noteq> PrimaryController (State s) \<longrightarrow>
            (\<forall>k ac'. Aircraft (State s') k = Some ac' \<longrightarrow> TrackingController ac' \<noteq> tcp)"
  proof (intro impI allI)
    fix k ac' assume ne: "tcp \<noteq> PrimaryController (State s)"
      and h: "Aircraft (State s') k = Some ac'"
    from h obtain ac where
      ac: "ac' = HandleControllerDisconnect tcp (PrimaryController (State s)) ac"
      by (auto simp: a)
    show "TrackingController ac' \<noteq> tcp"
      using ne by (cases "TrackingController ac = tcp")
                  (simp_all add: ac HandleControllerDisconnect_def)
  qed
  have 3: "Controller (LaunchConfig (State s)) = tcp \<longrightarrow> Controller (LaunchConfig (State s')) = []"
    by (simp add: l)
  have 4: "tcp \<notin> humanControllers s'" by (simp add: hc)
  show "\<exists>s'. SignOff tcp s = Inr s' \<and>
         (\<forall>k ac. Aircraft (State s) k = Some ac \<and> TrackingController ac = tcp \<longrightarrow>
            (\<exists>ac'. Aircraft (State s') k = Some ac' \<and>
                   TrackingController ac' = PrimaryController (State s))) \<and>
         (tcp \<noteq> PrimaryController (State s) \<longrightarrow>
            (\<forall>k ac'. Aircraft (State s') k = Some ac' \<longrightarrow> TrackingController ac' \<noteq> tcp)) \<and>
         (Controller (LaunchConfig (State s)) = tcp \<longrightarrow> Controller (LaunchConfig (State s')) = []) \<and>
         tcp \<notin> humanControllers s'"
    using r 1 2 3 4 by (intro exI[of _ s'] conjI)
qed

text \<open>Position \<open>B\<close> signs off from \<open>sim0\<close>; position \<open>C\<close>, which is not signed on, cannot.\<close>
theorem SignOff_transfers_tracks_witness:
  "''B'' \<in> humanControllers sim0 \<and> ''B'' \<noteq> PrimaryController (State sim0) \<and>
   Controller (LaunchConfig (State sim0)) = ''B'' \<and>
   map_option TrackingController (Aircraft (State sim0) ''N2'') = Some ''B'' \<and>
   \<not> isl (SignOff ''B'' sim0) \<and>
   map_option TrackingController (Aircraft (State (projr (SignOff ''B'' sim0))) ''N2'') = Some ''A'' \<and>
   map_option TrackingController (Aircraft (State (projr (SignOff ''B'' sim0))) ''N1'') = Some ''A'' \<and>
   Controller (LaunchConfig (State (projr (SignOff ''B'' sim0)))) = [] \<and>
   ''B'' \<notin> humanControllers (projr (SignOff ''B'' sim0)) \<and>
   SignOff ''C'' sim0 = Inl ErrNoController"
  using SignOff_transfers_tracks[of "''B''" sim0] SignOff_transfers_tracks[of "''C''" sim0]
  by (simp add: SignOff_def Let_def Post_def sim0_def st0_def HandleControllerDisconnect_def
        ac1_def ac2_def)

text \<open>
  The claim as stated fails: when the primary controller \<open>A\<close> signs off, its aircraft
  \<open>N1\<close> is handed to the primary controller, that is to \<open>A\<close>, and is still tracked by
  \<open>A\<close> afterwards.
\<close>
theorem SignOff_primary_counterexample:
  "''A'' \<in> humanControllers sim0 \<and> PrimaryController (State sim0) = ''A'' \<and>
   map_option TrackingController (Aircraft (State sim0) ''N1'') = Some ''A'' \<and>
   \<not> isl (SignOff ''A'' sim0) \<and>
   map_option TrackingController (Aircraft (State (projr (SignOff ''A'' sim0))) ''N1'') = Some ''A''"
  by (simp add: SignOff_def Let_def Post_def sim0_def st0_def HandleControllerDisconnect_def
        ac1_def ac2_def)

lemma resolveTimers_frame: "frame s (resolveTimers s)"
  unfolding resolveTimers_def
  by (rule frame_trans[OF resolveHandoffs_frame resolvePointOuts_frame])

lemma tick_SimTime:
  assumes "\<forall>x. SimTime (State (advance x)) = SimTime (State x)"
  shows "SimTime (State (tick advance s)) = SimTime (State s) + Second"
proof -
  let ?s1 = "s\<lparr>State := (State s)\<lparr>SimTime := SimTime (State s) + Second\<rparr>\<rparr>"
  have f: "SimTime (State (resolveTimers ?s1)) = SimTime (State ?s1)"
    using resolveTimers_frame[of ?s1] by (simp add: frame_def)
  have "SimTime (State (updateState advance ?s1)) = SimTime (State ?s1)"
    unfolding updateState_resolveTimers using assms f by simp
  then show ?thesis by (simp add: tick_def)
qed

lemma ticks_SimTime:
  assumes "\<forall>x. SimTime (State (advance x)) = SimTime (State x)"
  shows "SimTime (State ((tick advance ^^ n) s)) = SimTime (State s) + int n * Second"
  by (induction n) (simp_all add: tick_SimTime[OF assms] algebra_simps)

lemma wrap64_id: "- (2 ^ 63) \<le> x \<Longrightarrow> x < 2 ^ 63 \<Longrightarrow> wrap64 x = x"
  by (simp add: wrap64_def)

lemma Update_active:
  assumes "\<not> Paused (State s)" "isActiveHumanController (PrimaryController (State s)) s"
    and adv: "\<forall>x. SimTime (State (advance x)) = SimTime (State x)"
    and e: "0 \<le> scale (t1 - lastUpdateTime s)" "scale (t1 - lastUpdateTime s) < 2 ^ 63 - Second"
    and sl: "0 \<le> updateTimeSlop s" "updateTimeSlop s < Second"
  shows "SimTime (State (Update advance scale t1 t2 s)) =
           SimTime (State s) + ((scale (t1 - lastUpdateTime s) + updateTimeSlop s) div Second) * Second"
    and "updateTimeSlop (Update advance scale t1 t2 s) =
           (scale (t1 - lastUpdateTime s) + updateTimeSlop s) mod Second"
    and "lastUpdateTime (Update advance scale t1 t2 s) = t2"
proof -
  let ?e = "scale (t1 - lastUpdateTime s) + updateTimeSlop s"
  have S: "Second = 1000000000" by (simp add: Second_def)
  have r: "0 \<le> ?e" "?e < 2 ^ 63" using e sl by (simp_all add: S)
  have w: "wrap64 ?e = ?e" using r by (intro wrap64_id) simp_all
  have m: "0 \<le> ?e mod Second" "?e mod Second < Second" "?e mod Second \<le> ?e"
    using r(1) by (simp_all add: S zmod_le_nonneg_dividend)
  have g: "go_rem ?e Second = ?e mod Second"
    using r(1) by (simp add: go_rem_def S sgn_if)
  have t: "Truncate ?e Second = ?e - ?e mod Second"
    unfolding Truncate_def g using m r by (simp add: S wrap64_id)
  have d: "(?e - ?e mod Second) div Second = ?e div Second"
    by (simp add: S minus_mod_eq_mult_div)
  have n: "0 \<le> ?e div Second" using r(1) by (simp add: S pos_imp_zdiv_nonneg_iff)
  have sl': "wrap64 (?e - (?e - ?e mod Second)) = ?e mod Second"
    using m by (intro trans[OF wrap64_id]) (simp_all add: S)
  have sl'': "wrap64 (?e mod Second) = ?e mod Second"
    using m by (intro wrap64_id) (simp_all add: S)
  have U: "Update advance scale t1 t2 s =
            ((tick advance ^^ nat (?e div Second)) s)\<lparr>updateTimeSlop := ?e mod Second,
                                                        lastUpdateTime := t2\<rparr>"
    using assms(1,2) by (simp add: Update_def Let_def w t d sl' sl'')
  show "SimTime (State (Update advance scale t1 t2 s)) = SimTime (State s) + (?e div Second) * Second"
    unfolding U using n by (simp add: ticks_SimTime[OF adv])
  show "updateTimeSlop (Update advance scale t1 t2 s) = ?e mod Second" unfolding U by simp
  show "lastUpdateTime (Update advance scale t1 t2 s) = t2" unfolding U by simp
qed

text \<open>
  Claim C1.  Over any run of \<open>Update\<close> calls that find the sim unpaused with the primary
  controller signed on, where the scaled elapsed time of every call is a duration
  between zero and the largest one to which a second can be added in 64 bits, and the
  per-aircraft part of the tick does not touch the simulated clock: simulated time
  advances by a whole number of seconds, namely the whole seconds contained in the sum
  of the scaled elapsed times plus the leftover the run started with; the leftover
  after the run is the remainder, at least zero and less than one second; and for a run
  that starts with no leftover (as a new \<open>Sim\<close> does) the advance is the floor of the
  total scaled elapsed time.  A run of one call is the statement for a single call.
\<close>
theorem Update_whole_seconds:
  assumes "active_updates advance s es s'"
    and "\<forall>x. SimTime (State (advance x)) = SimTime (State x)"
    and "\<forall>e\<in>set es. 0 \<le> e \<and> e < 2 ^ 63 - Second"
    and "0 \<le> updateTimeSlop s \<and> updateTimeSlop s < Second"
  shows "SimTime (State s') - SimTime (State s)
            = ((sum_list es + updateTimeSlop s) div Second) * Second \<and>
         updateTimeSlop s' = (sum_list es + updateTimeSlop s) mod Second \<and>
         0 \<le> updateTimeSlop s' \<and> updateTimeSlop s' < Second \<and>
         (updateTimeSlop s = 0 \<longrightarrow>
            SimTime (State s') - SimTime (State s) = (sum_list es div Second) * Second)"
proof -
  have S: "Second = 1000000000" by (simp add: Second_def)
  have main: "SimTime (State s') - SimTime (State s)
            = ((sum_list es + updateTimeSlop s) div Second) * Second \<and>
         updateTimeSlop s' = (sum_list es + updateTimeSlop s) mod Second"
    using assms(1,3)
  proof (induction rule: active_updates.induct)
    case start
    show ?case using assms(4) by (simp add: S)
  next
    case (call es s1 s2 scale t1 t2)
    let ?T = "sum_list es + updateTimeSlop s"
    let ?e = "scale (t1 - lastUpdateTime s2)"
    have IH: "SimTime (State s1) - SimTime (State s) = (?T div Second) * Second"
      "updateTimeSlop s1 = ?T mod Second"
      using call.IH call.prems by simp_all
    have e: "0 \<le> ?e" "?e < 2 ^ 63 - Second" using call.prems by simp_all
    have sl: "0 \<le> updateTimeSlop s2" "updateTimeSlop s2 < Second"
      using IH(2) call.hyps(3) by (simp_all add: S)
    note U = Update_active[where scale=scale and ?t1.0=t1 and s=s2 and advance=advance
                              and ?t2.0=t2, OF call.hyps(4,5) assms(2) e sl]
    have "?T + ?e = (?e + ?T mod Second) + (?T div Second) * Second" by simp
    then have q: "(?T + ?e) div Second = ?T div Second + (?e + ?T mod Second) div Second"
      by (simp only: div_mult_self1[of Second "?e + ?T mod Second" "?T div Second"] S)
    have r: "(?T + ?e) mod Second = (?e + ?T mod Second) mod Second"
      by (simp add: mod_add_right_eq add.commute)
    have eq: "sum_list (es @ [?e]) + updateTimeSlop s = ?T + ?e" by simp
    have 1: "SimTime (State (Update advance scale t1 t2 s2)) - SimTime (State s)
               = ((sum_list (es @ [?e]) + updateTimeSlop s) div Second) * Second"
    proof -
      have "SimTime (State (Update advance scale t1 t2 s2)) - SimTime (State s)
              = (?T div Second) * Second + ((?e + ?T mod Second) div Second) * Second"
        using U(1) IH call.hyps(2,3) by simp
      also have "\<dots> = ((?T + ?e) div Second) * Second"
        unfolding q by (simp only: distrib_right)
      finally show ?thesis unfolding eq .
    qed
    have 2: "updateTimeSlop (Update advance scale t1 t2 s2)
               = (sum_list (es @ [?e]) + updateTimeSlop s) mod Second"
      unfolding eq r using U(2) IH(2) call.hyps(3) by simp
    show ?case using 1 2 by (rule conjI)
  qed
  have b: "0 \<le> (sum_list es + updateTimeSlop s) mod Second"
    "(sum_list es + updateTimeSlop s) mod Second < Second" by (simp_all add: S)
  show ?thesis using main b by simp
qed

lemma simW1_eval:
  "simW1 = sim0\<lparr>State := st0\<lparr>SimTime := 6000000000\<rparr>, lastSimUpdate := 6000000000,
                 updateTimeSlop := 400000000, lastUpdateTime := 710000000\<rparr>"
  by (simp add: simW1_def Update_def example_defs double_rate_def wrap64_def Truncate_def
        go_rem_def)

lemma funpow_two: "(f ^^ 2) x = f (f x)"
  by (simp add: numeral_2_eq_2)

lemma simW2_eval:
  "simW2 = sim0\<lparr>State := st0\<lparr>SimTime := 8000000000\<rparr>, lastSimUpdate := 8000000000,
                 updateTimeSlop := 100000000, lastUpdateTime := 1570000000\<rparr>"
  by (simp add: simW2_def simW1_eval Update_def example_defs double_rate_def wrap64_def
        Truncate_def go_rem_def funpow_two)

text \<open>Two calls that measure 1.4 s and 1.7 s: one step and 0.4 s left over, then two
  steps and 0.1 s left over; three steps for 3.1 s in total.\<close>
theorem Update_whole_seconds_witness:
  "active_updates id sim0 [1400000000, 1700000000] simW2 \<and>
   updateTimeSlop sim0 = 0 \<and> SimTime (State sim0) = 5 * Second \<and>
   SimTime (State simW1) = 6 * Second \<and> updateTimeSlop simW1 = 400000000 \<and>
   SimTime (State simW2) = 8 * Second \<and> updateTimeSlop simW2 = 100000000"
proof -
  have a0: "active_updates id sim0 [] sim0" by (rule active_updates.start)
  have a1: "active_updates id sim0 ([] @ [double_rate (700000000 - lastUpdateTime sim0)])
              (Update id double_rate 700000000 710000000 sim0)"
    by (rule active_updates.call[OF a0]) (simp_all add: example_defs)
  have a1': "active_updates id sim0 [1400000000] simW1"
    using a1 by (simp add: simW1_def double_rate_def example_defs)
  have a2: "active_updates id sim0 ([1400000000] @ [double_rate (1560000000 - lastUpdateTime simW1)])
              (Update id double_rate 1560000000 1570000000 simW1)"
    by (rule active_updates.call[OF a1']) (simp_all add: simW1_eval example_defs)
  have a2': "active_updates id sim0 [1400000000, 1700000000] simW2"
    using a2 by (simp add: simW2_def simW1_eval double_rate_def)
  have adv: "\<forall>x. SimTime (State (id x)) = SimTime (State x)" by simp
  have b: "\<forall>e\<in>set [1400000000, 1700000000::int]. 0 \<le> e \<and> e < 2 ^ 63 - Second"
    by (simp add: Second_def)
  have z: "0 \<le> updateTimeSlop sim0 \<and> updateTimeSlop sim0 < Second"
    by (simp add: example_defs)
  note t = Update_whole_seconds[OF a2' adv b z]
  have "SimTime (State simW2) = 8 * Second \<and> updateTimeSlop simW2 = 100000000"
    using t by (simp add: example_defs)
  then show ?thesis using a2' by (simp add: simW1_eval example_defs)
qed

subsection \<open>SimManager: registration and the exit condition\<close>

lemma map_of_put_key: "map_of (put_key k v m) k = Some v"
  by (simp add: put_key_def)

lemma manager_signOn_frame:
  "simSessions (snd (manager_signOn env sa position instructor sm)) = simSessions sm"
  by (simp add: manager_signOn_def Let_def split: sum.split option.split)

lemma manager_signOn_not_dup:
  "fst (manager_signOn env sa position instructor sm) \<noteq> Inl ErrDuplicateSimName"
  by (simp add: manager_signOn_def Let_def split: sum.split option.split)

lemma Add_duplicate:
  assumes "name (sessions sm ! sa) \<noteq> []"
    and "map_of (simSessions sm) (name (sessions sm ! sa)) \<noteq> None"
  shows "Add env sa initialTCP instructor doPrespawn disableTTS sm =
           (Inl ErrDuplicateSimName,
            sm\<lparr>sims := (sims sm)[sim (sessions sm ! sa) :=
                     Activate (activateTime env) (sims sm ! sim (sessions sm ! sa))]\<rparr>)"
  using assms by (simp add: Add_def Let_def)

lemma manager_signOn_result:
  assumes "manager_signOn env sa position instructor sm = (r, sm3)"
  shows "r \<noteq> Inl ErrDuplicateSimName" and "simSessions sm3 = simSessions sm"
  using manager_signOn_not_dup[of env sa position instructor sm]
        manager_signOn_frame[of env sa position instructor sm]
  unfolding assms by simp_all

lemma Add_empty_name:
  assumes "name (sessions sm ! sa) = []"
  shows "fst (Add env sa initialTCP instructor doPrespawn disableTTS sm) \<noteq> Inl ErrDuplicateSimName"
    and "map_of (simSessions (snd (Add env sa initialTCP instructor doPrespawn disableTTS sm))) [] = Some sa"
proof -
  define sm2 where "sm2 = sm\<lparr>sims := (sims sm)[sim (sessions sm ! sa) :=
                     Activate (activateTime env) (sims sm ! sim (sessions sm ! sa))],
                   simSessions := put_key [] sa (simSessions sm)\<rparr>"
  define a where "a = sim (sessions sm ! sa)"
  have A: "Add env sa initialTCP instructor doPrespawn disableTTS sm =
     (case manager_signOn env sa initialTCP instructor sm2 of
             (Inl err, sm3) \<Rightarrow> (Inl err, sm3)
           | (Inr tok, sm3) \<Rightarrow>
               let sm4 = AddHumanController (connectTime env) sa initialTCP tok disableTTS sm3;
                   sm5 = sm4\<lparr>sessionsByToken := (sessionsByToken sm4)(tok \<mapsto> (sa, initialTCP))\<rparr>;
                   sm6 = (if doPrespawn
                          then sm5\<lparr>sims := (sims sm5)[a := runPrespawn env (sims sm5 ! a)]\<rparr>
                          else sm5)
               in (Inr \<lparr>ControllerToken = tok\<rparr>, sm6))"
    unfolding Add_def Let_def sm2_def a_def assms by simp
  have s2: "simSessions sm2 = put_key [] sa (simSessions sm)" by (simp add: sm2_def)
  obtain r sm3 where so: "manager_signOn env sa initialTCP instructor sm2 = (r, sm3)"
    by (cases "manager_signOn env sa initialTCP instructor sm2")
  have nd: "r \<noteq> Inl ErrDuplicateSimName" by (rule manager_signOn_result(1)[OF so])
  have ss: "simSessions sm3 = put_key [] sa (simSessions sm)"
    using manager_signOn_result(2)[OF so] s2 by simp
  show "fst (Add env sa initialTCP instructor doPrespawn disableTTS sm) \<noteq> Inl ErrDuplicateSimName"
    unfolding A so using nd by (cases r) (simp_all add: Let_def)
  show "map_of (simSessions (snd (Add env sa initialTCP instructor doPrespawn disableTTS sm))) [] = Some sa"
    unfolding A so
    by (cases r) (simp_all add: Let_def ss map_of_put_key AddHumanController_def)
qed

text \<open>
  Claim C6.  For every manager state: \<open>NewSim\<close> under a non-empty name that is already
  in \<open>simSessions\<close> fails with the duplicate-name error, and afterwards \<open>simSessions\<close>
  and \<open>sessionsByToken\<close> are as before and every session object and every sim object
  that existed before the call is unchanged.  Under the empty name \<open>NewSim\<close> never fails
  with the duplicate-name error, and the registry maps the empty name to the new
  session afterwards.  The same holds of \<open>Add\<close> for any session: with a non-empty
  registered name it fails with the duplicate-name error, leaves the registry and all
  session objects unchanged and touches no sim other than the one of the session that
  was to be added.
\<close>
theorem NewSim_duplicate_name:
  "(NewSimName config \<noteq> [] \<and> map_of (simSessions sm) (NewSimName config) \<noteq> None \<longrightarrow>
      fst (NewSim env (Some s0) config sm) = Inl ErrDuplicateSimName \<and>
      simSessions (snd (NewSim env (Some s0) config sm)) = simSessions sm \<and>
      sessionsByToken (snd (NewSim env (Some s0) config sm)) = sessionsByToken sm \<and>
      take (length (sessions sm)) (sessions (snd (NewSim env (Some s0) config sm))) = sessions sm \<and>
      take (length (sims sm)) (sims (snd (NewSim env (Some s0) config sm))) = sims sm) \<and>
   (NewSimName config = [] \<longrightarrow>
      fst (NewSim env (Some s0) config sm) \<noteq> Inl ErrDuplicateSimName \<and>
      map_of (simSessions (snd (NewSim env (Some s0) config sm))) [] = Some (length (sessions sm))) \<and>
   (name (sessions sm ! sa) \<noteq> [] \<and> map_of (simSessions sm) (name (sessions sm ! sa)) \<noteq> None \<longrightarrow>
      fst (Add env sa initialTCP instructor doPrespawn disableTTS sm) = Inl ErrDuplicateSimName \<and>
      simSessions (snd (Add env sa initialTCP instructor doPrespawn disableTTS sm)) = simSessions sm \<and>
      sessionsByToken (snd (Add env sa initialTCP instructor doPrespawn disableTTS sm)) = sessionsByToken sm \<and>
      sessions (snd (Add env sa initialTCP instructor doPrespawn disableTTS sm)) = sessions sm \<and>
      (\<forall>b. b \<noteq> sim (sessions sm ! sa) \<longrightarrow>
         sims (snd (Add env sa initialTCP instructor doPrespawn disableTTS sm)) ! b = sims sm ! b))"
proof (intro conjI impI)
  let ?session = "\<lparr>name = NewSimName config, scenarioGroup = GroupName config,
                         scenario = ScenarioName config, sim = length (sims sm),
                         password = Password config, connectionsByTCP = Map.empty\<rparr>"
  let ?sm1 = "sm\<lparr>sims := sims sm @ [s0], sessions := sessions sm @ [?session]\<rparr>"
  let ?tcp = "PrimaryController (State s0)"
  have N: "NewSim env (Some s0) config sm =
             Add env (length (sessions sm)) ?tcp (Instructor config) True (DisableTextToSpeech config) ?sm1"
    by (simp add: NewSim_def Let_def)
  have nm: "name (sessions ?sm1 ! length (sessions sm)) = NewSimName config" by simp
  {
    assume d: "NewSimName config \<noteq> [] \<and> map_of (simSessions sm) (NewSimName config) \<noteq> None"
    have d1: "name (sessions ?sm1 ! length (sessions sm)) \<noteq> []" using d by simp
    have d2: "map_of (simSessions ?sm1) (name (sessions ?sm1 ! length (sessions sm))) \<noteq> None"
      using d by simp
    note A = Add_duplicate[OF d1 d2, of env ?tcp "Instructor config" True "DisableTextToSpeech config"]
    show "fst (NewSim env (Some s0) config sm) = Inl ErrDuplicateSimName"
      unfolding N A by simp
    show "simSessions (snd (NewSim env (Some s0) config sm)) = simSessions sm"
      unfolding N A by simp
    show "sessionsByToken (snd (NewSim env (Some s0) config sm)) = sessionsByToken sm"
      unfolding N A by simp
    show "take (length (sessions sm)) (sessions (snd (NewSim env (Some s0) config sm))) = sessions sm"
      unfolding N A by simp
    show "take (length (sims sm)) (sims (snd (NewSim env (Some s0) config sm))) = sims sm"
      unfolding N A by simp
  }
  {
    assume e: "NewSimName config = []"
    have e1: "name (sessions ?sm1 ! length (sessions sm)) = []" using e by simp
    show "fst (NewSim env (Some s0) config sm) \<noteq> Inl ErrDuplicateSimName"
      unfolding N by (rule Add_empty_name(1)[OF e1])
    show "map_of (simSessions (snd (NewSim env (Some s0) config sm))) [] = Some (length (sessions sm))"
      unfolding N by (rule Add_empty_name(2)[OF e1])
  }
  {
    assume d: "name (sessions sm ! sa) \<noteq> [] \<and> map_of (simSessions sm) (name (sessions sm ! sa)) \<noteq> None"
    note A = Add_duplicate[OF conjunct1[OF d] conjunct2[OF d],
                of env initialTCP instructor doPrespawn disableTTS]
    show "fst (Add env sa initialTCP instructor doPrespawn disableTTS sm) = Inl ErrDuplicateSimName"
      unfolding A by simp
    show "simSessions (snd (Add env sa initialTCP instructor doPrespawn disableTTS sm)) = simSessions sm"
      unfolding A by simp
    show "sessionsByToken (snd (Add env sa initialTCP instructor doPrespawn disableTTS sm)) = sessionsByToken sm"
      unfolding A by simp
    show "sessions (snd (Add env sa initialTCP instructor doPrespawn disableTTS sm)) = sessions sm"
      unfolding A by simp
    show "\<forall>b. b \<noteq> sim (sessions sm ! sa) \<longrightarrow>
         sims (snd (Add env sa initialTCP instructor doPrespawn disableTTS sm)) ! b = sims sm ! b"
      unfolding A by simp
  }
qed

text \<open>On the manager with the session \<open>alpha\<close>: a second \<open>alpha\<close> is refused, a session
  with the empty name is registered next to it and gets its token.\<close>
theorem NewSim_duplicate_name_witness:
  "NewSimName (cfg ''alpha'') \<noteq> [] \<and> map_of (simSessions mgr1) (NewSimName (cfg ''alpha'')) \<noteq> None \<and>
   fst (NewSim env0 (Some freshSim) (cfg ''alpha'') mgr1) = Inl ErrDuplicateSimName \<and>
   simSessions (snd (NewSim env0 (Some freshSim) (cfg ''alpha'') mgr1)) = [(''alpha'', 0)] \<and>
   sessionsByToken (snd (NewSim env0 (Some freshSim) (cfg ''alpha'') mgr1)) = sessionsByToken mgr1 \<and>
   NewSimName (cfg []) = [] \<and>
   fst (NewSim env0 (Some freshSim) (cfg []) mgr1) = Inr \<lparr>ControllerToken = ''dG9rZW4=''\<rparr> \<and>
   map_of (simSessions (snd (NewSim env0 (Some freshSim) (cfg []) mgr1))) [] = Some 1 \<and>
   map_of (simSessions (snd (NewSim env0 (Some freshSim) (cfg []) mgr1))) ''alpha'' = Some 0"
proof -
  have h1: "NewSimName (cfg ''alpha'') \<noteq> [] \<and>
            map_of (simSessions mgr1) (NewSimName (cfg ''alpha'')) \<noteq> None"
    by (simp add: cfg_def mgr1_def)
  have h2: "NewSimName (cfg []) = []" by (simp add: cfg_def)
  note t1 = mp[OF conjunct1[OF NewSim_duplicate_name[of "cfg ''alpha''" mgr1 env0 freshSim]] h1]
  note t2 = mp[OF conjunct1[OF conjunct2[OF NewSim_duplicate_name[of "cfg []" mgr1 env0 freshSim]]] h2]
  have r1: "fst (NewSim env0 (Some freshSim) (cfg ''alpha'') mgr1) = Inl ErrDuplicateSimName"
    by (rule conjunct1[OF t1])
  have r2: "simSessions (snd (NewSim env0 (Some freshSim) (cfg ''alpha'') mgr1)) = [(''alpha'', 0)]"
    using conjunct1[OF conjunct2[OF t1]] by (simp add: mgr1_def)
  have r3: "sessionsByToken (snd (NewSim env0 (Some freshSim) (cfg ''alpha'') mgr1)) = sessionsByToken mgr1"
    by (rule conjunct1[OF conjunct2[OF conjunct2[OF t1]]])
  have r4: "map_of (simSessions (snd (NewSim env0 (Some freshSim) (cfg []) mgr1))) [] = Some 1"
    using conjunct2[OF t2] by (simp add: mgr1_def)
  have ev: "fst (NewSim env0 (Some freshSim) (cfg []) mgr1) = Inr \<lparr>ControllerToken = ''dG9rZW4=''\<rparr> \<and>
            map_of (simSessions (snd (NewSim env0 (Some freshSim) (cfg []) mgr1))) ''alpha'' = Some 0"
    by (simp add: NewSim_def Add_def manager_signOn_def signOn_def Activate_def
          AddHumanController_def Post_def put_key_def delete_key_def Let_def
          cfg_def mgr1_def env0_def freshSim_def sim0_def st0_def)
  show ?thesis using h1 h2 r1 r2 r3 r4 ev by simp
qed

lemma length_filter_split:
  "length (filter P xs) = length (filter (\<lambda>x. P x \<and> Q x) xs) + length (filter (\<lambda>x. P x \<and> \<not> Q x) xs)"
  by (induction xs) simp_all

lemma length_filter_single:
  assumes "distinct xs" "x \<in> set xs"
  shows "length (filter (\<lambda>y. y = x) xs) = 1"
  using assms by (induction xs) (auto simp: filter_empty_conv)

lemma idle_count:
  assumes reg: "(n0, sa0) \<in> set (simSessions sm)" "sim (sessions sm ! sa0) = a"
    and uniq: "\<forall>x\<in>set (simSessions sm). x \<noteq> (n0, sa0) \<longrightarrow> sim (sessions sm ! snd x) \<noteq> a"
    and dist: "distinct (simSessions sm)"
    and idle: "IdleTime now (sims sm ! a) \<ge> simIdleLimit"
  shows "length (filter (session_idle now sm) (simSessions sm))
           = length (filter (session_idle now sm) (other_sessions sm a)) + 1"
proof -
  let ?P = "session_idle now sm"
  let ?Q = "\<lambda>x. sim (sessions sm ! snd x) \<noteq> a"
  have 1: "filter (\<lambda>x. ?P x \<and> \<not> ?Q x) (simSessions sm) = filter (\<lambda>y. y = (n0, sa0)) (simSessions sm)"
  proof (rule filter_cong[OF refl])
    fix x assume x: "x \<in> set (simSessions sm)"
    show "(?P x \<and> \<not> ?Q x) = (x = (n0, sa0))"
    proof (cases "x = (n0, sa0)")
      case True
      then show ?thesis using reg(2) idle by (simp add: session_idle_def)
    next
      case False
      then show ?thesis using uniq x by simp
    qed
  qed
  have 2: "filter (\<lambda>x. ?P x \<and> ?Q x) (simSessions sm) = filter ?P (other_sessions sm a)"
    by (simp add: other_sessions_def case_prod_beta conj_commute)
  have "length (filter ?P (simSessions sm))
          = length (filter (\<lambda>x. ?P x \<and> ?Q x) (simSessions sm))
            + length (filter (\<lambda>x. ?P x \<and> \<not> ?Q x) (simSessions sm))"
    by (rule length_filter_split)
  then show ?thesis
    unfolding 1 2 length_filter_single[OF dist reg(1)] .
qed

text \<open>
  Claim C7, as amended.  For the sim of a registered session (no other registered
  session running the same sim), \<open>SimShouldExit\<close> is true exactly when the sim has been
  idle for at least four hours and at least ten other registered sessions have been idle
  for at least four hours, that is when more than ten registered sessions, this one
  included, are idle; with nine or fewer other idle sessions it is false.  Only for a sim
  that no registered session runs does the count have to exceed ten other sessions.
\<close>
theorem SimShouldExit_counts_registered:
  "((n0, sa0) \<in> set (simSessions sm) \<and> sim (sessions sm ! sa0) = a \<and>
    (\<forall>x\<in>set (simSessions sm). x \<noteq> (n0, sa0) \<longrightarrow> sim (sessions sm ! snd x) \<noteq> a) \<and>
    distinct (simSessions sm) \<longrightarrow>
      (SimShouldExit now sm a \<longleftrightarrow>
         IdleTime now (sims sm ! a) \<ge> simIdleLimit \<and>
         length (filter (session_idle now sm) (other_sessions sm a)) \<ge> 10)) \<and>
   ((\<forall>x\<in>set (simSessions sm). sim (sessions sm ! snd x) \<noteq> a) \<longrightarrow>
      (SimShouldExit now sm a \<longleftrightarrow>
         IdleTime now (sims sm ! a) \<ge> simIdleLimit \<and>
         length (filter (session_idle now sm) (other_sessions sm a)) > 10))"
proof (rule conjI; rule impI)
  assume h: "(n0, sa0) \<in> set (simSessions sm) \<and> sim (sessions sm ! sa0) = a \<and>
    (\<forall>x\<in>set (simSessions sm). x \<noteq> (n0, sa0) \<longrightarrow> sim (sessions sm ! snd x) \<noteq> a) \<and>
    distinct (simSessions sm)"
  show "SimShouldExit now sm a \<longleftrightarrow>
         IdleTime now (sims sm ! a) \<ge> simIdleLimit \<and>
         length (filter (session_idle now sm) (other_sessions sm a)) \<ge> 10"
  proof (cases "IdleTime now (sims sm ! a) \<ge> simIdleLimit")
    case False
    then show ?thesis by (simp add: SimShouldExit_def)
  next
    case True
    have c: "length (filter (session_idle now sm) (simSessions sm))
           = length (filter (session_idle now sm) (other_sessions sm a)) + 1"
      using h True by (intro idle_count[of n0 sa0]) simp_all
    show ?thesis using True by (simp add: SimShouldExit_def Let_def c) arith
  qed
next
  assume h: "\<forall>x\<in>set (simSessions sm). sim (sessions sm ! snd x) \<noteq> a"
  have "other_sessions sm a = simSessions sm"
    unfolding other_sessions_def using h by (intro filter_True) (simp add: case_prod_beta)
  then show "SimShouldExit now sm a \<longleftrightarrow>
         IdleTime now (sims sm ! a) \<ge> simIdleLimit \<and>
         length (filter (session_idle now sm) (other_sessions sm a)) > 10"
    by (auto simp: SimShouldExit_def Let_def)
qed

lemma mgr11_sessions: "simSessions mgr11 =
   [(''s0'', 0), (''s1'', 1), (''s2'', 2), (''s3'', 3), (''s4'', 4), (''s5'', 5), (''s6'', 6),
    (''s7'', 7), (''s8'', 8), (''s9'', 9), (''s10'', 10)]"
  by (simp add: mgr11_def names11_def upt_rec)

lemma mgr10_sessions: "simSessions mgr10 =
   [(''s0'', 0), (''s1'', 1), (''s2'', 2), (''s3'', 3), (''s4'', 4), (''s5'', 5), (''s6'', 6),
    (''s7'', 7), (''s8'', 8), (''s9'', 9)]"
  by (simp add: mgr10_def mgr11_def names11_def upt_rec)

lemma mgr11_sim: "k < 11 \<Longrightarrow> sim (sessions mgr11 ! k) = k"
  by (simp add: mgr11_def)

lemma mgr10_sim: "k < 11 \<Longrightarrow> sim (sessions mgr10 ! k) = k"
  by (simp add: mgr10_def mgr11_def)

lemma mgr11_idle: "k < 11 \<Longrightarrow> IdleTime t (sims mgr11 ! k) = t"
  by (simp add: mgr11_def IdleTime_def sim0_def)

lemma mgr10_idle: "k < 11 \<Longrightarrow> IdleTime t (sims mgr10 ! k) = t"
  by (simp add: mgr10_def mgr11_def IdleTime_def sim0_def)

text \<open>
  The claim as stated fails: of eleven registered sessions, all idle for exactly four
  hours, each one has only ten other idle sessions beside it, and \<open>SimShouldExit\<close> is
  true for it.
\<close>
theorem SimShouldExit_ten_others_counterexample:
  "IdleTime simIdleLimit (sims mgr11 ! 0) = simIdleLimit \<and>
   length (other_sessions mgr11 0) = 10 \<and>
   length (filter (session_idle simIdleLimit mgr11) (other_sessions mgr11 0)) = 10 \<and>
   SimShouldExit simIdleLimit mgr11 0"
  by (simp add: SimShouldExit_def Let_def other_sessions_def session_idle_def mgr11_sessions
        mgr11_sim mgr11_idle)

text \<open>Eleven idle sessions: exit.  Ten idle sessions, or one second short of four hours:
  no exit.\<close>
theorem SimShouldExit_counts_registered_witness:
  "(''s0'', 0) \<in> set (simSessions mgr11) \<and> sim (sessions mgr11 ! 0) = 0 \<and>
   distinct (simSessions mgr11) \<and>
   SimShouldExit simIdleLimit mgr11 0 \<and>
   length (filter (session_idle simIdleLimit mgr10) (other_sessions mgr10 0)) = 9 \<and>
   \<not> SimShouldExit simIdleLimit mgr10 0 \<and>
   \<not> SimShouldExit (simIdleLimit - 1) mgr11 0"
proof -
  have h: "(''s0'', 0) \<in> set (simSessions mgr11) \<and> sim (sessions mgr11 ! 0) = 0 \<and>
    (\<forall>x\<in>set (simSessions mgr11). x \<noteq> (''s0'', 0) \<longrightarrow> sim (sessions mgr11 ! snd x) \<noteq> 0) \<and>
    distinct (simSessions mgr11)"
    by (simp add: mgr11_sessions mgr11_sim)
  have h10: "(''s0'', 0) \<in> set (simSessions mgr10) \<and> sim (sessions mgr10 ! 0) = 0 \<and>
    (\<forall>x\<in>set (simSessions mgr10). x \<noteq> (''s0'', 0) \<longrightarrow> sim (sessions mgr10 ! snd x) \<noteq> 0) \<and>
    distinct (simSessions mgr10)"
    by (simp add: mgr10_sessions mgr10_sim)
  note t11 = mp[OF conjunct1[OF SimShouldExit_counts_registered[of "''s0''" 0 mgr11 0 simIdleLimit]] h]
  note t10 = mp[OF conjunct1[OF SimShouldExit_counts_registered[of "''s0''" 0 mgr10 0 simIdleLimit]] h10]
  note t11' = mp[OF conjunct1[OF SimShouldExit_counts_registered[of "''s0''" 0 mgr11 0 "simIdleLimit - 1"]] h]
  have c11: "length (filter (session_idle simIdleLimit mgr11) (other_sessions mgr11 0)) = 10"
    by (simp add: other_sessions_def session_idle_def mgr11_sessions mgr11_sim mgr11_idle)
  have c10: "length (filter (session_idle simIdleLimit mgr10) (other_sessions mgr10 0)) = 9"
    by (simp add: other_sessions_def session_idle_def mgr10_sessions mgr10_sim mgr10_idle)
  have r11: "SimShouldExit simIdleLimit mgr11 0" using t11 c11 by (simp add: mgr11_idle)
  have r10: "\<not> SimShouldExit simIdleLimit mgr10 0" using t10 c10 by (simp add: mgr10_idle)
  have r11': "\<not> SimShouldExit (simIdleLimit - 1) mgr11 0" using t11' by (simp add: mgr11_idle)
  show ?thesis using h c10 r11 r10 r11' by simp
qed

subsection \<open>The command interpreter\<close>

lemma fieldsFrom_nonempty: "[] \<notin> set (fieldsFrom cur s)"
proof (induction cur s rule: fieldsFrom.induct)
  case (1 cur)
  show ?case by simp
next
  case (2 cur c cs)
  show ?case
  proof (cases "spaceLen (c # cs) = 0")
    case True
    then show ?thesis using 2(1) by (simp del: spaceLen.simps)
  next
    case False
    then show ?thesis using 2(2) by (simp del: spaceLen.simps)
  qed
qed

lemma Fields_nonempty: "[] \<notin> set (Fields s)"
  unfolding Fields_def by (rule fieldsFrom_nonempty)

lemma Fields_example: "Fields ''H090 S250 ZZZ'' = [''H090'', ''S250'', ''ZZZ'']"
  by (simp add: Fields_def byte_def)

lemma parseCommand_nonempty:
  "command \<noteq> [] \<Longrightarrow> \<exists>r. parseCommand env tcp callsign w command = Parsed r"
  by (cases command) (simp_all only: parseCommand_def list.case token_result.inject simp_thms)

lemma execToken_nonempty:
  assumes "command \<noteq> []"
  shows "\<exists>e w'. execToken env tcp callsign command w = Parsed (e, w')"
proof -
  from parseCommand_nonempty[OF assms, where env=env and tcp=tcp and callsign=callsign and w=w] obtain r where
    r: "parseCommand env tcp callsign w command = Parsed r" by blast
  show ?thesis
  proof (cases r)
    case (Inl err)
    then show ?thesis unfolding execToken_def r by simp
  next
    case (Inr call)
    obtain e w' where c: "engine env tcp callsign call w = (e, w')" by (cases "engine env tcp callsign call w")
    show ?thesis unfolding execToken_def r Inr by (simp add: c)
  qed
qed

lemma runCommands_success:
  "execAll env tcp callsign tokens w = Some w1 \<Longrightarrow>
   runCommands env tcp callsign tokens result w = (result, w1)"
proof (induction tokens arbitrary: w)
  case Nil
  then show ?case by simp
next
  case (Cons command rest)
  from Cons.prems obtain w' where
    e: "execToken env tcp callsign command w = Parsed (None, w')"
    and r: "execAll env tcp callsign rest w' = Some w1"
    by (auto split: token_result.splits prod.splits option.splits)
  show ?case using Cons.IH[OF r] by (simp add: e)
qed

lemma runCommands_failure:
  "execAll env tcp callsign pre w = Some w1 \<Longrightarrow>
   execToken env tcp callsign bad w1 = Parsed (Some err, w2) \<Longrightarrow>
   runCommands env tcp callsign (pre @ bad # post) result w
     = (rewriteError env (bad # post) err result, w2)"
proof (induction pre arbitrary: w)
  case Nil
  then show ?case by simp
next
  case (Cons command rest)
  from Cons.prems(1) obtain w' where
    e: "execToken env tcp callsign command w = Parsed (None, w')"
    and r: "execAll env tcp callsign rest w' = Some w1"
    by (auto split: token_result.splits prod.splits option.splits)
  show ?case using Cons.IH[OF r Cons.prems(2)] by (simp add: e)
qed

lemma execAll_dichotomy:
  "[] \<notin> set tokens \<Longrightarrow>
   (\<exists>w1. execAll env tcp callsign tokens w = Some w1) \<or>
   (\<exists>pre bad post err w1 w2. tokens = pre @ bad # post \<and>
       execAll env tcp callsign pre w = Some w1 \<and>
       execToken env tcp callsign bad w1 = Parsed (Some err, w2))"
proof (induction tokens arbitrary: w)
  case Nil
  then show ?case by simp
next
  case (Cons command rest)
  then have ne: "command \<noteq> []" and nr: "[] \<notin> set rest" by auto
  from execToken_nonempty[OF ne, where env=env and tcp=tcp and callsign=callsign and w=w] obtain e w' where
    e: "execToken env tcp callsign command w = Parsed (e, w')" by blast
  show ?case
  proof (cases e)
    case None
    from Cons.IH[OF nr, of w'] show ?thesis
    proof
      assume "\<exists>w1. execAll env tcp callsign rest w' = Some w1"
      then show ?thesis using e None by simp
    next
      assume "\<exists>pre bad post err w1 w2. rest = pre @ bad # post \<and>
         execAll env tcp callsign pre w' = Some w1 \<and>
         execToken env tcp callsign bad w1 = Parsed (Some err, w2)"
      then obtain pre bad post err w1 w2 where
        p: "rest = pre @ bad # post" "execAll env tcp callsign pre w' = Some w1"
           "execToken env tcp callsign bad w1 = Parsed (Some err, w2)" by blast
      have "command # rest = (command # pre) @ bad # post" using p(1) by simp
      moreover have "execAll env tcp callsign (command # pre) w = Some w1"
        using e None p(2) by simp
      ultimately show ?thesis using p(3) by blast
    qed
  next
    case (Some err)
    have "command # rest = [] @ command # rest" by simp
    moreover have "execAll env tcp callsign [] w = Some w" by simp
    ultimately show ?thesis using e Some by blast
  qed
qed

lemma Atoi_090: "Atoi ''090'' = Inr 90"
  by (simp add: Atoi_def isDigit_def byte_def)

lemma Atoi_250: "Atoi ''250'' = Inr 250"
  by (simp add: Atoi_def isDigit_def byte_def)

lemma parseCommand_H090:
  "parseCommand env tcp callsign w ''H090''
     = Parsed (Inr (AssignHeading ((headingArgs tcp callsign)\<lparr>Heading := 90, Turn := TurnClosest\<rparr>)))"
  by (simp add: parseCommand_def parseH_def Atoi_090)

lemma parseCommand_S250:
  "parseCommand env tcp callsign w ''S250'' = Parsed (Inr (AssignSpeed 250 False))"
  by (simp add: parseCommand_def parseS_def Atoi_250)

lemma parseCommand_ZZZ:
  "parseCommand env tcp callsign w ''ZZZ'' = Parsed (Inl ErrInvalidCommandSyntax)"
  by (simp add: parseCommand_def)

lemma execToken_syntax:
  "parseCommand env tcp callsign w command = Parsed (Inl err) \<Longrightarrow>
   execToken env tcp callsign command w = Parsed (Some err, w)"
  by (simp add: execToken_def)

lemma execToken_call:
  "parseCommand env tcp callsign w command = Parsed (Inr call) \<Longrightarrow>
   engine env tcp callsign call w = (e, w') \<Longrightarrow>
   execToken env tcp callsign command w = Parsed (if call = DeleteAircraft then None else e, w')"
  by (simp add: execToken_def)

lemma RunAircraftCommands_runCommands:
  "LookupController env (ArgsControllerToken cmds) = Some tcp \<Longrightarrow>
   runCommands env tcp (ArgsCallsign cmds) (Fields (Commands cmds)) result w = (result', w') \<Longrightarrow>
   RunAircraftCommands env cmds result w = (None, result', w')"
  by (simp add: RunAircraftCommands_def)

text \<open>
  Claim C3.  Let the controller token of the call resolve to a position \<open>tcp\<close>, and let
  the tokens of the command string be its white-space separated fields.  A token fails
  when it is rejected before any engine call or when the engine call it makes returns an
  error (the result of the \<open>X\<close> command's call is not looked at).  If every token runs
  without an error, the sim is the one obtained by running the tokens from left to right
  and the result structure is untouched.  If the tokens are \<open>pre\<close>, then \<open>bad\<close>, then \<open>post\<close>,
  the tokens of \<open>pre\<close> all run without an error and \<open>bad\<close> fails with \<open>err\<close>, then the call
  returns no Go error, \<open>RemainingInput\<close> is \<open>bad\<close> and the tokens of \<open>post\<close> joined by single
  spaces, \<open>ErrorMessage\<close> is the text of \<open>err\<close>, and the sim is the one the tokens of
  \<open>pre\<close> and the failing call left; no token of \<open>post\<close> is run.  One of the two cases always
  applies.  A token that is rejected before its engine call leaves the sim as the earlier
  tokens left it.  In particular, for the command string \<open>H090 S250 ZZZ\<close> and an engine
  that accepts a heading of 90 (closest turn) and a speed of 250, both assignments are
  made and the result reports \<open>RemainingInput = "ZZZ"\<close> with the syntax error.
\<close>
theorem RunAircraftCommands_stops_at_first_failure:
  assumes "LookupController env (ArgsControllerToken cmds) = Some tcp"
  shows
    "(\<forall>w1. execAll env tcp (ArgsCallsign cmds) (Fields (Commands cmds)) w = Some w1 \<longrightarrow>
        RunAircraftCommands env cmds result w = (None, result, w1)) \<and>
     (\<forall>pre bad post err w1 w2.
        Fields (Commands cmds) = pre @ bad # post \<and>
        execAll env tcp (ArgsCallsign cmds) pre w = Some w1 \<and>
        execToken env tcp (ArgsCallsign cmds) bad w1 = Parsed (Some err, w2) \<longrightarrow>
        RunAircraftCommands env cmds result w =
          (None,
           result\<lparr>RemainingInput := Join (bad # post) '' '', ErrorMessage := ErrorText env err\<rparr>,
           w2)) \<and>
     ((\<exists>w1. execAll env tcp (ArgsCallsign cmds) (Fields (Commands cmds)) w = Some w1) \<or>
      (\<exists>pre bad post err w1 w2.
        Fields (Commands cmds) = pre @ bad # post \<and>
        execAll env tcp (ArgsCallsign cmds) pre w = Some w1 \<and>
        execToken env tcp (ArgsCallsign cmds) bad w1 = Parsed (Some err, w2))) \<and>
     (\<forall>bad err w1.
        parseCommand env tcp (ArgsCallsign cmds) w1 bad = Parsed (Inl err) \<longrightarrow>
        execToken env tcp (ArgsCallsign cmds) bad w1 = Parsed (Some err, w1)) \<and>
     (\<forall>wa wb.
        Commands cmds = ''H090 S250 ZZZ'' \<and>
        engine env tcp (ArgsCallsign cmds)
          (AssignHeading ((headingArgs tcp (ArgsCallsign cmds))\<lparr>Heading := 90, Turn := TurnClosest\<rparr>)) w
            = (None, wa) \<and>
        engine env tcp (ArgsCallsign cmds) (AssignSpeed 250 False) wa = (None, wb) \<longrightarrow>
        RunAircraftCommands env cmds result w =
          (None,
           result\<lparr>RemainingInput := ''ZZZ'', ErrorMessage := ''Invalid command syntax''\<rparr>,
           wb))"
proof -
  let ?cs = "ArgsCallsign cmds"
  let ?toks = "Fields (Commands cmds)"
  have A: "\<forall>w1. execAll env tcp ?cs ?toks w = Some w1 \<longrightarrow>
        RunAircraftCommands env cmds result w = (None, result, w1)"
  proof (intro allI impI)
    fix w1 assume "execAll env tcp ?cs ?toks w = Some w1"
    from runCommands_success[OF this]
    show "RunAircraftCommands env cmds result w = (None, result, w1)"
      by (rule RunAircraftCommands_runCommands[OF assms])
  qed
  have B0: "RunAircraftCommands env cmds result w =
          (None,
           result\<lparr>RemainingInput := Join (bad # post) '' '', ErrorMessage := ErrorText env err\<rparr>,
           w2)"
    if h: "?toks = pre @ bad # post" "execAll env tcp ?cs pre w = Some w1"
        "execToken env tcp ?cs bad w1 = Parsed (Some err, w2)"
    for pre bad post err w1 w2
  proof -
    have "runCommands env tcp ?cs ?toks result w = (rewriteError env (bad # post) err result, w2)"
      unfolding h(1) by (rule runCommands_failure[OF h(2) h(3)])
    from RunAircraftCommands_runCommands[OF assms this]
    show ?thesis unfolding rewriteError_def .
  qed
  have B: "\<forall>pre bad post err w1 w2.
        ?toks = pre @ bad # post \<and>
        execAll env tcp ?cs pre w = Some w1 \<and>
        execToken env tcp ?cs bad w1 = Parsed (Some err, w2) \<longrightarrow>
        RunAircraftCommands env cmds result w =
          (None,
           result\<lparr>RemainingInput := Join (bad # post) '' '', ErrorMessage := ErrorText env err\<rparr>,
           w2)"
    using B0 by blast
  have C: "(\<exists>w1. execAll env tcp ?cs ?toks w = Some w1) \<or>
      (\<exists>pre bad post err w1 w2.
        ?toks = pre @ bad # post \<and>
        execAll env tcp ?cs pre w = Some w1 \<and>
        execToken env tcp ?cs bad w1 = Parsed (Some err, w2))"
    by (rule execAll_dichotomy[OF Fields_nonempty])
  have D: "\<forall>bad err w1.
        parseCommand env tcp ?cs w1 bad = Parsed (Inl err) \<longrightarrow>
        execToken env tcp ?cs bad w1 = Parsed (Some err, w1)"
    by (intro allI impI) (rule execToken_syntax)
  have E: "\<forall>wa wb.
        Commands cmds = ''H090 S250 ZZZ'' \<and>
        engine env tcp ?cs
          (AssignHeading ((headingArgs tcp ?cs)\<lparr>Heading := 90, Turn := TurnClosest\<rparr>)) w
            = (None, wa) \<and>
        engine env tcp ?cs (AssignSpeed 250 False) wa = (None, wb) \<longrightarrow>
        RunAircraftCommands env cmds result w =
          (None,
           result\<lparr>RemainingInput := ''ZZZ'', ErrorMessage := ''Invalid command syntax''\<rparr>,
           wb)"
  proof (intro allI impI, elim conjE)
    fix wa wb
    assume c: "Commands cmds = ''H090 S250 ZZZ''"
      and e1: "engine env tcp ?cs
          (AssignHeading ((headingArgs tcp ?cs)\<lparr>Heading := 90, Turn := TurnClosest\<rparr>)) w = (None, wa)"
      and e2: "engine env tcp ?cs (AssignSpeed 250 False) wa = (None, wb)"
    have t: "?toks = [''H090'', ''S250''] @ ''ZZZ'' # []"
      unfolding c Fields_example by simp
    have x1: "execToken env tcp ?cs ''H090'' w = Parsed (None, wa)"
      using execToken_call[OF parseCommand_H090 e1] by simp
    have x2: "execToken env tcp ?cs ''S250'' wa = Parsed (None, wb)"
      using execToken_call[OF parseCommand_S250 e2] by simp
    have x3: "execToken env tcp ?cs ''ZZZ'' wb = Parsed (Some ErrInvalidCommandSyntax, wb)"
      by (rule execToken_syntax[OF parseCommand_ZZZ])
    have p: "execAll env tcp ?cs [''H090'', ''S250''] w = Some wb"
      by (simp add: x1 x2)
    from B0[OF t p x3]
    show "RunAircraftCommands env cmds result w =
          (None,
           result\<lparr>RemainingInput := ''ZZZ'', ErrorMessage := ''Invalid command syntax''\<rparr>,
           wb)"
      by (simp add: ErrorText_def)
  qed
  show ?thesis
    by (rule conjI[OF A conjI[OF B conjI[OF C conjI[OF D E]]]])
qed

text \<open>The command string \<open>H090 S250 ZZZ\<close> on the example sim, for the token of position \<open>A\<close>.\<close>
theorem RunAircraftCommands_stops_at_first_failure_witness:
  "LookupController logEnv
     (ArgsControllerToken \<lparr>ArgsControllerToken = ''tokA'', ArgsCallsign = ''N1'', Commands = ''H090 S250 ZZZ''\<rparr>)
     = Some ''A'' \<and>
   Fields ''H090 S250 ZZZ'' = [''H090'', ''S250''] @ ''ZZZ'' # [] \<and>
   execAll logEnv ''A'' ''N1'' [''H090'', ''S250''] []
     = Some [(''A'', ''N1'',
              AssignHeading \<lparr>ArgTCP = ''A'', ArgCallsign = ''N1'', Heading = 90, Present = False,
                             LeftDegrees = 0, RightDegrees = 0, Turn = TurnClosest\<rparr>),
             (''A'', ''N1'', AssignSpeed 250 False)] \<and>
   execToken logEnv ''A'' ''N1'' ''ZZZ''
       [(''A'', ''N1'',
         AssignHeading \<lparr>ArgTCP = ''A'', ArgCallsign = ''N1'', Heading = 90, Present = False,
                        LeftDegrees = 0, RightDegrees = 0, Turn = TurnClosest\<rparr>),
        (''A'', ''N1'', AssignSpeed 250 False)]
     = Parsed (Some ErrInvalidCommandSyntax,
         [(''A'', ''N1'',
           AssignHeading \<lparr>ArgTCP = ''A'', ArgCallsign = ''N1'', Heading = 90, Present = False,
                          LeftDegrees = 0, RightDegrees = 0, Turn = TurnClosest\<rparr>),
          (''A'', ''N1'', AssignSpeed 250 False)]) \<and>
   RunAircraftCommands logEnv
       \<lparr>ArgsControllerToken = ''tokA'', ArgsCallsign = ''N1'', Commands = ''H090 S250 ZZZ''\<rparr>
       emptyResult []
     = (None,
        \<lparr>ErrorMessage = ''Invalid command syntax'', RemainingInput = ''ZZZ''\<rparr>,
        [(''A'', ''N1'',
          AssignHeading \<lparr>ArgTCP = ''A'', ArgCallsign = ''N1'', Heading = 90, Present = False,
                         LeftDegrees = 0, RightDegrees = 0, Turn = TurnClosest\<rparr>),
         (''A'', ''N1'', AssignSpeed 250 False)])"
proof -
  let ?cmds = "\<lparr>ArgsControllerToken = ''tokA'', ArgsCallsign = ''N1'', Commands = ''H090 S250 ZZZ''\<rparr>"
  let ?h = "(''A'', ''N1'',
              AssignHeading \<lparr>ArgTCP = ''A'', ArgCallsign = ''N1'', Heading = 90, Present = False,
                             LeftDegrees = 0, RightDegrees = 0, Turn = TurnClosest\<rparr>
                :: (int, string) EngineCall)"
  let ?s = "(''A'', ''N1'', AssignSpeed 250 False :: (int, string) EngineCall)"
  have l: "LookupController logEnv (ArgsControllerToken ?cmds) = Some ''A''"
    by (simp add: logEnv_def)
  have f: "Fields (Commands ?cmds) = [''H090'', ''S250''] @ ''ZZZ'' # []"
    by (simp add: Fields_example)
  have x1: "execToken logEnv ''A'' ''N1'' ''H090'' [] = Parsed (None, [?h])"
    using execToken_call[OF parseCommand_H090, where env=logEnv and tcp="''A''" and callsign="''N1''" and w="[]" and e=None and w'="[?h]"]
    by (simp add: logEnv_def headingArgs_def)
  have x2: "execToken logEnv ''A'' ''N1'' ''S250'' [?h] = Parsed (None, [?h, ?s])"
    using execToken_call[OF parseCommand_S250, where env=logEnv and tcp="''A''" and callsign="''N1''" and w="[?h]" and e=None and w'="[?h, ?s]"]
    by (simp add: logEnv_def)
  have p: "execAll logEnv ''A'' (ArgsCallsign ?cmds) [''H090'', ''S250''] [] = Some [?h, ?s]"
    by (simp add: x1 x2)
  have x3: "execToken logEnv ''A'' (ArgsCallsign ?cmds) ''ZZZ'' [?h, ?s]
              = Parsed (Some ErrInvalidCommandSyntax, [?h, ?s])"
    by (simp add: execToken_syntax[OF parseCommand_ZZZ])
  note t = RunAircraftCommands_stops_at_first_failure[OF l, where w="[]" and result=emptyResult]
  from conjunct1[OF conjunct2[OF t]] f p x3
  have "RunAircraftCommands logEnv ?cmds emptyResult [] =
          (None,
           emptyResult\<lparr>RemainingInput := Join (''ZZZ'' # []) '' '',
                        ErrorMessage := ErrorText logEnv ErrInvalidCommandSyntax\<rparr>,
           [?h, ?s])"
    by blast
  then have r: "RunAircraftCommands logEnv ?cmds emptyResult [] =
     (None, \<lparr>ErrorMessage = ''Invalid command syntax'', RemainingInput = ''ZZZ''\<rparr>, [?h, ?s])"
    by (simp add: emptyResult_def ErrorText_def)
  show ?thesis using l f p x3 r by simp
qed










lemma letters_not_numeric:
  "\<not> isDigit CHR ''A''" "\<not> isDigit CHR ''C''" "\<not> isDigit CHR ''D''" "\<not> isDigit CHR ''S''"
  by (simp_all add: isDigit_def byte_def)






































end
